theory Spec2Isabelle
  imports Main "HOL-Library.AList" "HOL-Library.Word"
begin

section \<open>Values, dictionary keys and exceptions\<close>

text \<open>
  The Python values that travel through \<^verbatim>\<open>txmsgpackrpc/protocol.py\<close>: what the msgpack
  unpacker produces (nil, booleans, integers, strings, arrays) and, as \<open>PObj\<close>, any other
  object an application hands to the engine (a handler's result that msgpack cannot pack).
  Python integers are unbounded, hence \<open>int\<close>. MessagePack floats, maps and extension
  values are not modelled.
\<close>

type_synonym byte = "8 word"
type_synonym address = "string \<times> nat"

datatype pyval = PNone | PBool bool | PInt int | PStr string | PList "pyval list" | PObj nat

text \<open>
  Dictionary keys. Python hashes \<open>True\<close> and \<open>1\<close> (and \<open>False\<close> and \<open>0\<close>) to the same key;
  a list is unhashable, and using it as a key raises \<open>TypeError\<close>.
\<close>

datatype pykey = KNone | KInt int | KStr string | KObj nat

fun hashkey :: "pyval \<Rightarrow> pykey option" where
  "hashkey PNone = Some KNone"
| "hashkey (PBool b) = Some (KInt (if b then 1 else 0))"
| "hashkey (PInt i) = Some (KInt i)"
| "hashkey (PStr s) = Some (KStr s)"
| "hashkey (PList xs) = None"
| "hashkey (PObj n) = Some (KObj n)"

text \<open>\<open>v == i\<close> for an integer constant \<open>i\<close>: \<open>True == 1\<close> and \<open>False == 0\<close> hold in Python.\<close>

fun py_eq_int :: "pyval \<Rightarrow> int \<Rightarrow> bool" where
  "py_eq_int (PInt j) i = (j = i)"
| "py_eq_int (PBool b) i = ((if b then 1 else 0) = i)"
| "py_eq_int _ i = False"

text \<open>
  The exceptions: the classes of \<^verbatim>\<open>txmsgpackrpc.error\<close> that the module imports, the Python
  built-ins its statements raise, Twisted's \<open>AlreadyCalledError\<close> (a Deferred fired twice),
  \<open>AlreadyCalled\<close> and \<open>AlreadyCancelled\<close> (a DelayedCall cancelled after it ran or twice),
  Twisted's two disconnect reasons, the packer's own exception and the exceptions of the
  application's handlers. \<open>UndefinedMessage\<close> is the kind the specification names for an
  unknown message type; no statement of the source raises it. \<open>DanglingReference\<close> stands for
  a reference to an object that was never created; no state built from the constructors
  holds one.
\<close>

datatype error =
    ConnectionError | ResponseError pyval | InvalidRequest | InvalidResponse | InvalidData
  | TimeoutError | SerializationError | UndefinedMessage
  | NotImplementedError | ValueError | TypeError | IndexError | AttributeError
  | UnboundLocalError
  | AlreadyCalledError | AlreadyCalled | AlreadyCancelled
  | ConnectionDone | ConnectionLost
  | PackError | AppError nat
  | DanglingReference

definition MSGTYPE_REQUEST :: int where "MSGTYPE_REQUEST = 0"
definition MSGTYPE_RESPONSE :: int where "MSGTYPE_RESPONSE = 1"
definition MSGTYPE_NOTIFICATION :: int where "MSGTYPE_NOTIFICATION = 2"

text \<open>\<open>Context = namedtuple('Context', ['peer'])\<close>; Python's \<open>None\<close> context is \<open>None\<close> here.\<close>

datatype ctx = Context (peer: "address option")

section \<open>Twisted's objects: Deferred and DelayedCall\<close>

text \<open>
  A Deferred is fired at most once: \<open>callback\<close> and \<open>errback\<close> on a Deferred that has been
  fired raise \<open>AlreadyCalledError\<close>. What a Deferred was fired with is its \<open>outcome\<close>;
  \<open>None\<close> is a Deferred that has not been fired.
\<close>

datatype outcome = Succeeded pyval | Failed error

text \<open>
  A DelayedCall of \<open>reactor.callLater\<close> with the argument it passes to \<open>timeoutRequest\<close>.
  \<open>cancel\<close> raises \<open>AlreadyCancelled\<close> on a cancelled call and \<open>AlreadyCalled\<close> on one that
  has run.
\<close>

datatype dcstate = Scheduled | Ran | Cancelled

datatype delayedCall = DelayedCall (dc_arg: pyval) (dc_state: dcstate)

section \<open>The collaborators\<close>

text \<open>
  What the module takes from outside: the msgpack packer and unpacker, the application's
  remote methods, and the two texts Twisted's Failure gives for an exception.

  \<open>unpack1 b bs\<close> reads one object from the buffered bytes \<open>b # bs\<close>: \<open>Unpacked m n\<close> is the
  object \<open>m\<close>, encoded in \<open>b\<close> and the next \<open>n\<close> bytes; \<open>OutOfData\<close> asks for more bytes
  and consumes none; \<open>Malformed n\<close> is an exception of the unpacker, which has consumed \<open>b\<close>
  and the next \<open>n\<close> bytes when it raises.

  A remote method is called with the request's \<open>params\<close> and, when \<open>msgid\<close> is one of its
  variable names, with the msgid as a keyword argument. It returns a value, raises, or
  returns a Deferred that the application fires later.
\<close>

datatype hresult = Returns pyval | Raises error | ReturnsDeferred

datatype remote_method = RemoteMethod (takes_msgid: bool) (invoke: "pyval \<Rightarrow> pyval option \<Rightarrow> hresult")

datatype 'a unpacked = OutOfData | Malformed nat | Unpacked 'a nat

record env =
  pack :: "pyval \<Rightarrow> error + byte list"
  unpack1 :: "byte \<Rightarrow> byte list \<Rightarrow> pyval unpacked"
  remote_methods :: "pyval \<Rightarrow> error + remote_method"
  getErrorMessage :: "error \<Rightarrow> pyval"
  getBriefTraceback :: "error \<Rightarrow> pyval"

section \<open>The protocol object\<close>

text \<open>
  One record for \<open>MsgpackStreamProtocol\<close> and \<open>MsgpackDatagramProtocol\<close>: the fields of
  \<open>MsgpackBaseProtocol.__init__\<close>, those of the two subclasses, and the objects the protocol
  holds references to, each referred to by its index: \<open>deferreds\<close> are the Deferreds
  \<open>createRequest\<close> made, \<open>results\<close> the Deferreds of \<open>requestReceived\<close> with the msgid their
  callbacks were attached with, \<open>delayedCalls\<close> the reactor's calls. \<open>unpacker\<close> holds the
  bytes fed and not yet consumed, \<open>written\<close> what was passed to \<open>transport.write\<close>.
  A dictionary is an association list in insertion order.
\<close>

datatype kind = Stream | Datagram

record proto =
  kind :: kind
  sendErrors :: bool
  incoming_requests :: "(pykey \<times> (nat \<times> ctx option)) list"
  outgoing_requests :: "(pykey \<times> nat) list"
  next_msgid :: int
  unpacker :: "byte list"
  connected :: int
  timeout :: "nat option"
  conn_address :: "address option"
  pendingTimeouts :: "(pykey \<times> nat) list"
  deferreds :: "outcome option list"
  results :: "(outcome option \<times> pyval) list"
  delayedCalls :: "delayedCall list"
  written :: "(byte list \<times> address option) list"

definition init :: "kind \<Rightarrow> bool \<Rightarrow> nat option \<Rightarrow> address option \<Rightarrow> proto" where
  "init k se t a =
     \<lparr> kind = k, sendErrors = se, incoming_requests = [], outgoing_requests = [],
       next_msgid = 0, unpacker = [], connected = 0, timeout = t, conn_address = a,
       pendingTimeouts = [], deferreds = [], results = [], delayedCalls = [], written = [] \<rparr>"

text \<open>\<open>d.callback(result)\<close> and \<open>d.errback(e)\<close> on a Deferred that \<open>createRequest\<close> returned.\<close>

definition fire :: "nat \<Rightarrow> outcome \<Rightarrow> proto \<Rightarrow> (error + unit) \<times> proto" where
  "fire d out s =
     (if d < length (deferreds s) then
        (case deferreds s ! d of
           Some _ \<Rightarrow> (Inl AlreadyCalledError, s)
         | None \<Rightarrow> (Inr (), s\<lparr>deferreds := (deferreds s)[d := Some out]\<rparr>))
      else (Inl DanglingReference, s))"

text \<open>\<open>dc.cancel()\<close>\<close>

definition cancel :: "nat \<Rightarrow> proto \<Rightarrow> (error + unit) \<times> proto" where
  "cancel dc s =
     (if dc < length (delayedCalls s) then
        (case dc_state (delayedCalls s ! dc) of
           Cancelled \<Rightarrow> (Inl AlreadyCancelled, s)
         | Ran \<Rightarrow> (Inl AlreadyCalled, s)
         | Scheduled \<Rightarrow>
             (Inr (), s\<lparr>delayedCalls := (delayedCalls s)[dc := DelayedCall (dc_arg (delayedCalls s ! dc)) Cancelled]\<rparr>))
      else (Inl DanglingReference, s))"

section \<open>MsgpackBaseProtocol.responseReceived\<close>

text \<open>
  \<^verbatim>\<open>
    try:
        (msgType, msgid, error, result) = message
    except Exception as e:
        if self._sendErrors: raise
        raise InvalidResponse(...)
    try:
        df = self._outgoing_requests.pop(msgid)
    except KeyError:
        pass
    if error is not None:
        ex = ResponseError(error)
        df.errback(failure.Failure(exc_value=ex))
    else:
        df.callback(result)
  \<close>
  When \<open>pop\<close> raises \<open>KeyError\<close> the handler passes, \<open>df\<close> was never bound, and the use
  of \<open>df\<close> in either branch raises \<open>UnboundLocalError\<close>. On an empty dictionary \<open>pop\<close>
  raises \<open>KeyError\<close> without hashing the key; otherwise an unhashable msgid makes \<open>pop\<close>
  raise \<open>TypeError\<close>, which the handler does not catch.
\<close>

definition base_responseReceived :: "pyval list \<Rightarrow> proto \<Rightarrow> (error + unit) \<times> proto" where
  "base_responseReceived message s =
     (case message of
        [msgType, msgid, err, result] \<Rightarrow>
          if outgoing_requests s = [] then (Inl UnboundLocalError, s)
          else
            (case hashkey msgid of
               None \<Rightarrow> (Inl TypeError, s)
             | Some k \<Rightarrow>
                 (case map_of (outgoing_requests s) k of
                    None \<Rightarrow> (Inl UnboundLocalError, s)
                  | Some df \<Rightarrow>
                      let s1 = s\<lparr>outgoing_requests := AList.delete k (outgoing_requests s)\<rparr>
                      in if err \<noteq> PNone then fire df (Failed (ResponseError err)) s1
                         else fire df (Succeeded result) s1))
      | _ \<Rightarrow> (Inl (if sendErrors s then ValueError else InvalidResponse), s))"

section \<open>Writing messages\<close>

definition isConnected :: "proto \<Rightarrow> bool" where
  "isConnected s = (connected s = 1)"

text \<open>
  \<open>getClientContext\<close>: \<open>None\<close> on a stream, \<open>Context(peer=self.conn_address)\<close> on a datagram
  protocol.
\<close>

definition getClientContext :: "proto \<Rightarrow> ctx option" where
  "getClientContext s = (case kind s of Stream \<Rightarrow> None | Datagram \<Rightarrow> Some (Context (conn_address s)))"

text \<open>
  \<open>writeRawData\<close>: \<open>self.transport.write(message)\<close> on a stream,
  \<open>self.transport.write(message, context.peer)\<close> on a datagram protocol, where a \<open>None\<close>
  context has no attribute \<open>peer\<close>. \<open>transport.write\<close> itself does not raise.
\<close>

definition writeRawData :: "byte list \<Rightarrow> ctx option \<Rightarrow> proto \<Rightarrow> (error + unit) \<times> proto" where
  "writeRawData message context s =
     (case kind s of
        Stream \<Rightarrow> (Inr (), s\<lparr>written := written s @ [(message, None)]\<rparr>)
      | Datagram \<Rightarrow>
          (case context of
             None \<Rightarrow> (Inl AttributeError, s)
           | Some c \<Rightarrow> (Inr (), s\<lparr>written := written s @ [(message, peer c)]\<rparr>)))"

text \<open>
  \<^verbatim>\<open>
    def writeMessage(self, message, context):
        try:
            message = self._packer.pack(message)
        except Exception:
            if self._sendErrors: raise
            raise SerializationError("ERROR: Failed to write message: %s" % message)
        self.writeRawData(message, context)
  \<close>
  Every caller passes a tuple as \<open>message\<close>. When packing fails, \<open>message\<close> is still that
  tuple, and \<open>"...%s" % message\<close> on a tuple of other than one element raises \<open>TypeError\<close>
  before \<open>SerializationError\<close> is built.
\<close>

definition pack_failure :: "proto \<Rightarrow> pyval list \<Rightarrow> error \<Rightarrow> error" where
  "pack_failure s message e =
     (if sendErrors s then e else if length message = 1 then SerializationError else TypeError)"

definition base_writeMessage :: "env \<Rightarrow> pyval list \<Rightarrow> ctx option \<Rightarrow> proto \<Rightarrow> (error + unit) \<times> proto" where
  "base_writeMessage env message context s =
     (case pack env (PList message) of
        Inl e \<Rightarrow> (Inl (pack_failure s message e), s)
      | Inr packed \<Rightarrow> writeRawData packed context s)"

text \<open>
  \<^verbatim>\<open>
    def writeMessage(self, message, context):          # MsgpackDatagramProtocol
        if self.timeout:
            msgid = message[1]
            dc = reactor.callLater(self.timeout, self.timeoutRequest, msgid)
            self._pendingTimeouts[msgid] = dc
        return super(MsgpackDatagramProtocol, self).writeMessage(message, context)
  \<close>
  \<open>if self.timeout\<close> is false for \<open>None\<close> and for \<open>0\<close>. The call is scheduled before the
  dictionary is written, so it stays scheduled when the key is unhashable.
\<close>

definition dgram_writeMessage :: "env \<Rightarrow> pyval list \<Rightarrow> ctx option \<Rightarrow> proto \<Rightarrow> (error + unit) \<times> proto" where
  "dgram_writeMessage env message context s =
     (if timeout s \<noteq> None \<and> timeout s \<noteq> Some 0 then
        (case message of
           _ # msgid # _ \<Rightarrow>
             let dc = length (delayedCalls s);
                 s1 = s\<lparr>delayedCalls := delayedCalls s @ [DelayedCall msgid Scheduled]\<rparr>
             in (case hashkey msgid of
                   None \<Rightarrow> (Inl TypeError, s1)
                 | Some k \<Rightarrow>
                     base_writeMessage env message context
                       (s1\<lparr>pendingTimeouts := AList.update k dc (pendingTimeouts s1)\<rparr>))
         | _ \<Rightarrow> (Inl IndexError, s))
      else base_writeMessage env message context s)"

definition writeMessage :: "env \<Rightarrow> pyval list \<Rightarrow> ctx option \<Rightarrow> proto \<Rightarrow> (error + unit) \<times> proto" where
  "writeMessage env message context s =
     (case kind s of
        Stream \<Rightarrow> base_writeMessage env message context s
      | Datagram \<Rightarrow> dgram_writeMessage env message context s)"

section \<open>Sending requests and notifications\<close>

definition getNextMsgid :: "proto \<Rightarrow> int \<times> proto" where
  "getNextMsgid s = (next_msgid s + 1, s\<lparr>next_msgid := next_msgid s + 1\<rparr>)"

text \<open>
  \<^verbatim>\<open>
    def createRequest(self, method, params):
        if not self.isConnected():
            raise ConnectionError("Not connected")
        msgid = self.getNextMsgid()
        message = (MSGTYPE_REQUEST, msgid, method, params)
        ctx = self.getClientContext()
        self.writeMessage(message, ctx)
        df = defer.Deferred()
        self._outgoing_requests[msgid] = df
        return df
  \<close>
  The result is the new Deferred with the msgid it is registered under.
\<close>

definition createRequest :: "env \<Rightarrow> pyval \<Rightarrow> pyval \<Rightarrow> proto \<Rightarrow> (error + (nat \<times> int)) \<times> proto" where
  "createRequest env method_name params s =
     (if \<not> isConnected s then (Inl ConnectionError, s)
      else
        let (msgid, s1) = getNextMsgid s;
            message = [PInt MSGTYPE_REQUEST, PInt msgid, method_name, params];
            c = getClientContext s1
        in (case writeMessage env message c s1 of
              (Inl e, s2) \<Rightarrow> (Inl e, s2)
            | (Inr _, s2) \<Rightarrow>
                let df = length (deferreds s2)
                in (Inr (df, msgid),
                    s2\<lparr>deferreds := deferreds s2 @ [None],
                       outgoing_requests := AList.update (KInt msgid) df (outgoing_requests s2)\<rparr>)))"

text \<open>\<open>MsgpackDatagramProtocol.createRequest(self, method, *params)\<close> passes the tuple on.\<close>

definition dgram_createRequest :: "env \<Rightarrow> pyval \<Rightarrow> pyval list \<Rightarrow> proto \<Rightarrow> (error + (nat \<times> int)) \<times> proto" where
  "dgram_createRequest env method_name params s = createRequest env method_name (PList params) s"

text \<open>
  \<^verbatim>\<open>
    def createNotification(self, method, params):
        if not self.isConnected():
            raise ConnectionError("Not connected")
        if not type(params) in (list, tuple):
            params = (params,)
        message = (MSGTYPE_NOTIFICATION, method, params)
        ctx = self.getClientContext()
        self.writeMessage(message, ctx)
  \<close>
\<close>

definition createNotification :: "env \<Rightarrow> pyval \<Rightarrow> pyval \<Rightarrow> proto \<Rightarrow> (error + unit) \<times> proto" where
  "createNotification env method_name params s =
     (if \<not> isConnected s then (Inl ConnectionError, s)
      else
        let params' = (case params of PList _ \<Rightarrow> params | _ \<Rightarrow> PList [params]);
            message = [PInt MSGTYPE_NOTIFICATION, method_name, params']
        in writeMessage env message (getClientContext s) s)"

section \<open>Failing the pending requests\<close>

text \<open>
  \<^verbatim>\<open>
    def callbackOutgoingRequests(self, func):
        while self._outgoing_requests:
            msgid, d = self._outgoing_requests.popitem()
            func(d)
  \<close>
  Every caller passes \<open>lambda d: d.errback(e)\<close>; the function here takes \<open>e\<close>. \<open>popitem\<close>
  removes the pair inserted last (Python 3.7 and later). An exception of \<open>func\<close> leaves the
  loop with the remaining pairs in the dictionary.
\<close>

function callbackOutgoingRequests :: "error \<Rightarrow> proto \<Rightarrow> (error + unit) \<times> proto" where
  "callbackOutgoingRequests e s =
     (if outgoing_requests s = [] then (Inr (), s)
      else
        let d = snd (last (outgoing_requests s));
            s1 = s\<lparr>outgoing_requests := butlast (outgoing_requests s)\<rparr>
        in (case fire d (Failed e) s1 of
              (Inl x, s2) \<Rightarrow> (Inl x, s2)
            | (Inr _, s2) \<Rightarrow> callbackOutgoingRequests e s2))"
  by pat_completeness auto
termination
  by (relation "measure (\<lambda>(e, s). length (outgoing_requests s))")
     (auto simp: fire_def split: if_splits option.splits)

text \<open>
  \<open>MsgpackStreamProtocol\<close>: \<open>connectionMade\<close>, \<open>connectionLost(reason)\<close>, which passes
  \<open>lambda d: d.errback(reason)\<close>, and \<open>timeoutConnection\<close>. The factory's connection
  registry and the idle timer of \<open>TimeoutMixin\<close> are outside this theory.
\<close>

definition connectionMade :: "proto \<Rightarrow> proto" where
  "connectionMade s = s\<lparr>connected := 1\<rparr>"

definition connectionLost :: "error \<Rightarrow> proto \<Rightarrow> (error + unit) \<times> proto" where
  "connectionLost reason s = callbackOutgoingRequests reason (s\<lparr>connected := 0\<rparr>)"

definition timeoutConnection :: "proto \<Rightarrow> (error + unit) \<times> proto" where
  "timeoutConnection s = callbackOutgoingRequests TimeoutError s"

text \<open>
  \<open>MsgpackDatagramProtocol\<close>: \<open>startProtocol\<close>, \<open>connectionRefused\<close>, \<open>closeConnection\<close> and
  \<^verbatim>\<open>
    def timeoutRequest(self, msgid):
        d = self._outgoing_requests.get(msgid)
        if d is not None:
            d.errback(TimeoutError("Request timed out"))
  \<close>
\<close>

definition startProtocol :: "proto \<Rightarrow> proto" where
  "startProtocol s = s\<lparr>connected := 1\<rparr>"

definition connectionRefused :: "proto \<Rightarrow> (error + unit) \<times> proto" where
  "connectionRefused s = callbackOutgoingRequests ConnectionError s"

definition closeConnection :: "proto \<Rightarrow> proto" where
  "closeConnection s = (case kind s of Stream \<Rightarrow> s | Datagram \<Rightarrow> s\<lparr>connected := 0\<rparr>)"

definition timeoutRequest :: "pyval \<Rightarrow> proto \<Rightarrow> (error + unit) \<times> proto" where
  "timeoutRequest msgid s =
     (case hashkey msgid of
        None \<Rightarrow> (Inl TypeError, s)
      | Some k \<Rightarrow>
          (case map_of (outgoing_requests s) k of
             None \<Rightarrow> (Inr (), s)
           | Some d \<Rightarrow> fire d (Failed TimeoutError) s))"

text \<open>
  The reactor runs a scheduled DelayedCall: it marks the call as run and calls
  \<open>timeoutRequest\<close> with its argument. A call that was cancelled or has run is not run.
\<close>

definition runDelayedCall :: "nat \<Rightarrow> proto \<Rightarrow> (error + unit) \<times> proto" where
  "runDelayedCall dc s =
     (if dc < length (delayedCalls s) \<and> dc_state (delayedCalls s ! dc) = Scheduled then
        timeoutRequest (dc_arg (delayedCalls s ! dc))
          (s\<lparr>delayedCalls := (delayedCalls s)[dc := DelayedCall (dc_arg (delayedCalls s ! dc)) Ran]\<rparr>)
      else (Inr (), s))"

text \<open>
  \<^verbatim>\<open>
    def responseReceived(self, message):               # MsgpackDatagramProtocol
        msgid = message[1]
        dc = self._pendingTimeouts.get(msgid)
        if dc is not None:
            dc.cancel()
        return super(MsgpackDatagramProtocol, self).responseReceived(message)
  \<close>
\<close>

definition dgram_responseReceived :: "pyval list \<Rightarrow> proto \<Rightarrow> (error + unit) \<times> proto" where
  "dgram_responseReceived message s =
     (case message of
        _ # msgid # _ \<Rightarrow>
          (case hashkey msgid of
             None \<Rightarrow> (Inl TypeError, s)
           | Some k \<Rightarrow>
               (case map_of (pendingTimeouts s) k of
                  None \<Rightarrow> base_responseReceived message s
                | Some dc \<Rightarrow>
                    (case cancel dc s of
                       (Inl e, s1) \<Rightarrow> (Inl e, s1)
                     | (Inr _, s1) \<Rightarrow> base_responseReceived message s1)))
      | _ \<Rightarrow> (Inl IndexError, s))"

definition responseReceived :: "pyval list \<Rightarrow> proto \<Rightarrow> (error + unit) \<times> proto" where
  "responseReceived message s =
     (case kind s of
        Stream \<Rightarrow> base_responseReceived message s
      | Datagram \<Rightarrow> dgram_responseReceived message s)"

section \<open>Receiving requests\<close>

text \<open>
  \<open>callRemoteMethod\<close>: a method that cannot be found is \<open>InvalidRequest\<close>, and so is a
  \<open>TypeError\<close> of the call; with \<open>sendErrors\<close> both exceptions are re-raised as they are.
\<close>

definition callRemoteMethod :: "env \<Rightarrow> proto \<Rightarrow> pyval \<Rightarrow> pyval \<Rightarrow> pyval \<Rightarrow> hresult" where
  "callRemoteMethod env s msgid methodName params =
     (case remote_methods env methodName of
        Inl e \<Rightarrow> Raises (if sendErrors s then e else InvalidRequest)
      | Inr m \<Rightarrow>
          (case invoke m params (if takes_msgid m then Some msgid else None) of
             Raises e \<Rightarrow> Raises (if e = TypeError \<and> \<not> sendErrors s then InvalidRequest else e)
           | r \<Rightarrow> r))"

text \<open>
  \<^verbatim>\<open>
    def respondCallback(self, result, msgid):
        try:
            _, ctx = self._incoming_requests[msgid]
        except KeyError:
            ctx = None
        error = None
        response = (MSGTYPE_RESPONSE, msgid, error, result)
        return self.writeMessage(response, ctx)
  \<close>
  \<open>respondError\<close> is the same with the error in third place; \<open>respondErrback\<close> takes the
  error from the failure: the brief traceback with \<open>sendErrors\<close>, the message without.
\<close>

definition respondError :: "env \<Rightarrow> pyval \<Rightarrow> pyval \<Rightarrow> pyval \<Rightarrow> proto \<Rightarrow> (error + unit) \<times> proto" where
  "respondError env msgid err result s =
     (case hashkey msgid of
        None \<Rightarrow> (Inl TypeError, s)
      | Some k \<Rightarrow>
          let c = (case map_of (incoming_requests s) k of None \<Rightarrow> None | Some (_, c) \<Rightarrow> c)
          in writeMessage env [PInt MSGTYPE_RESPONSE, msgid, err, result] c s)"

definition respondCallback :: "env \<Rightarrow> pyval \<Rightarrow> pyval \<Rightarrow> proto \<Rightarrow> (error + unit) \<times> proto" where
  "respondCallback env result msgid s = respondError env msgid PNone result s"

definition respondErrback :: "env \<Rightarrow> error \<Rightarrow> pyval \<Rightarrow> proto \<Rightarrow> (error + unit) \<times> proto" where
  "respondErrback env f msgid s =
     respondError env msgid (if sendErrors s then getBriefTraceback env f else getErrorMessage env f) PNone s"

text \<open>
  \<^verbatim>\<open>
    def endRequest(self, result, msgid):
        if msgid in self._incoming_requests:
            del self._incoming_requests[msgid]
        return result
  \<close>
\<close>

definition endRequest :: "pyval \<Rightarrow> proto \<Rightarrow> (error + unit) \<times> proto" where
  "endRequest msgid s =
     (case hashkey msgid of
        None \<Rightarrow> (Inl TypeError, s)
      | Some k \<Rightarrow> (Inr (), s\<lparr>incoming_requests := AList.delete k (incoming_requests s)\<rparr>))"

text \<open>
  The callbacks \<open>requestReceived\<close> attaches, as Twisted runs them when the Deferred has a
  result:
  \<^verbatim>\<open>
    result.addCallback(self.respondCallback, msgid)
    result.addErrback(self.respondErrback, msgid)
    result.addBoth(self.endRequest, msgid)
  \<close>
  A callback is called on a success and an errback on a failure; what either returns
  (\<open>None\<close> here) is the next result, and an exception it raises is the next failure.
  The value is the Deferred's last result.
\<close>

definition runCallbacks :: "env \<Rightarrow> pyval \<Rightarrow> outcome \<Rightarrow> proto \<Rightarrow> outcome \<times> proto" where
  "runCallbacks env msgid out s =
     (let (r1, s1) =
            (case out of
               Succeeded v \<Rightarrow>
                 (case respondCallback env v msgid s of
                    (Inl e, s') \<Rightarrow> (Failed e, s')
                  | (Inr _, s') \<Rightarrow> (Succeeded PNone, s'))
             | Failed e \<Rightarrow> (Failed e, s));
          (r2, s2) =
            (case r1 of
               Succeeded v \<Rightarrow> (Succeeded v, s1)
             | Failed e \<Rightarrow>
                 (case respondErrback env e msgid s1 of
                    (Inl e', s') \<Rightarrow> (Failed e', s')
                  | (Inr _, s') \<Rightarrow> (Succeeded PNone, s')))
      in (case endRequest msgid s2 of
            (Inl e, s3) \<Rightarrow> (Failed e, s3)
          | (Inr _, s3) \<Rightarrow> (r2, s3)))"

text \<open>
  \<^verbatim>\<open>
    def requestReceived(self, message, context):
        try:
            (msgType, msgid, methodName, params) = message
        except ValueError:
            if self._sendErrors: raise
            ...
            raise InvalidData("Failed to unpack request.")
        ...
        if msgid in self._incoming_requests:
            raise InvalidRequest("Request with msgid '%s' already exists" % msgid)
        result = defer.maybeDeferred(self.callRemoteMethod, msgid, methodName, params)
        self._incoming_requests[msgid] = (result, context)
        result.addCallback(self.respondCallback, msgid)
        result.addErrback(self.respondErrback, msgid)
        result.addBoth(self.endRequest, msgid)
        return result
  \<close>
  \<open>maybeDeferred\<close> turns a returned value or a raised exception into a Deferred that has
  its result, and the callbacks attached to such a Deferred run at once.
  The result is the index of the Deferred.
\<close>

definition requestReceived :: "env \<Rightarrow> pyval list \<Rightarrow> ctx option \<Rightarrow> proto \<Rightarrow> (error + nat) \<times> proto" where
  "requestReceived env message context s =
     (case message of
        [msgType, msgid, methodName, params] \<Rightarrow>
          (case hashkey msgid of
             None \<Rightarrow> (Inl TypeError, s)
           | Some k \<Rightarrow>
               if map_of (incoming_requests s) k \<noteq> None then (Inl InvalidRequest, s)
               else
                 let r = callRemoteMethod env s msgid methodName params;
                     out = (case r of Returns v \<Rightarrow> Some (Succeeded v) | Raises e \<Rightarrow> Some (Failed e)
                            | ReturnsDeferred \<Rightarrow> None);
                     d = length (results s);
                     s1 = s\<lparr>results := results s @ [(out, msgid)],
                            incoming_requests := AList.update k (d, context) (incoming_requests s)\<rparr>
                 in (case out of
                       None \<Rightarrow> (Inr d, s1)
                     | Some x \<Rightarrow> (Inr d, snd (runCallbacks env msgid x s1))))
      | _ \<Rightarrow> (Inl (if sendErrors s then ValueError else InvalidData), s))"

text \<open>
  The application fires the Deferred its remote method returned: the callbacks of
  \<open>requestReceived\<close> run.
\<close>

definition fireResult :: "env \<Rightarrow> nat \<Rightarrow> outcome \<Rightarrow> proto \<Rightarrow> (error + unit) \<times> proto" where
  "fireResult env d out s =
     (if d < length (results s) then
        (case results s ! d of
           (Some _, _) \<Rightarrow> (Inl AlreadyCalledError, s)
         | (None, msgid) \<Rightarrow>
             (Inr (), snd (runCallbacks env msgid out (s\<lparr>results := (results s)[d := (Some out, msgid)]\<rparr>))))
      else (Inl DanglingReference, s))"

section \<open>Receiving notifications and dispatching\<close>

text \<open>
  \<open>notificationReceived\<close> calls the remote method and drops what it gives; a message that
  is not a triple is printed and dropped. Neither changes the protocol object.
\<close>

definition notificationReceived :: "env \<Rightarrow> pyval list \<Rightarrow> proto \<Rightarrow> (error + unit) \<times> proto" where
  "notificationReceived env message s =
     (case message of
        [msgType, methodName, params] \<Rightarrow>
          (case callRemoteMethod env s PNone methodName params of _ \<Rightarrow> (Inr (), s))
      | _ \<Rightarrow> (Inr (), s))"

text \<open>
  \<^verbatim>\<open>
    def undefinedMessageReceived(self, message):
        raise NotImplementedError("Msgpack received a message of type '%s', ..." % message[0])
  \<close>
\<close>

definition undefinedMessageReceived :: "pyval list \<Rightarrow> proto \<Rightarrow> (error + unit) \<times> proto" where
  "undefinedMessageReceived message s = (Inl NotImplementedError, s)"

text \<open>
  \<^verbatim>\<open>
    def messageReceived(self, message, context):
        if message[0] == MSGTYPE_REQUEST:
            return self.requestReceived(message, context)
        if message[0] == MSGTYPE_RESPONSE:
            return self.responseReceived(message)
        if message[0] == MSGTYPE_NOTIFICATION:
            return self.notificationReceived(message)
        return self.undefinedMessageReceived(message)
  \<close>
  \<open>message[0]\<close> raises \<open>IndexError\<close> on an empty array or string and \<open>TypeError\<close> on nil, a
  boolean or an integer; the first character of a string equals no integer.
\<close>

fun messageReceived :: "env \<Rightarrow> pyval \<Rightarrow> ctx option \<Rightarrow> proto \<Rightarrow> (error + unit) \<times> proto" where
  "messageReceived env (PList []) context s = (Inl IndexError, s)"
| "messageReceived env (PList (t # ts)) context s =
     (if py_eq_int t MSGTYPE_REQUEST then
        (case requestReceived env (t # ts) context s of
           (Inl e, s') \<Rightarrow> (Inl e, s')
         | (Inr _, s') \<Rightarrow> (Inr (), s'))
      else if py_eq_int t MSGTYPE_RESPONSE then responseReceived (t # ts) s
      else if py_eq_int t MSGTYPE_NOTIFICATION then notificationReceived env (t # ts) s
      else undefinedMessageReceived (t # ts) s)"
| "messageReceived env (PStr []) context s = (Inl IndexError, s)"
| "messageReceived env (PStr (c # cs)) context s = (Inl NotImplementedError, s)"
| "messageReceived env _ context s = (Inl TypeError, s)"

text \<open>
  \<^verbatim>\<open>
    def rawDataReceived(self, data, context=None):
        try:
            self._unpacker.feed(data)
            for message in self._unpacker:
                self.messageReceived(message, context)
        except Exception as e:
            print(e)
  \<close>
  The loop over the unpacker, on the buffered bytes: it ends when the unpacker is out of
  data, and when the unpacker or \<open>messageReceived\<close> raises, which leaves the bytes that
  were not consumed in the buffer. The result lists the messages passed to
  \<open>messageReceived\<close>, then the bytes left, then the protocol object.
\<close>

fun unpacker_loop :: "env \<Rightarrow> ctx option \<Rightarrow> byte list \<Rightarrow> proto \<Rightarrow> pyval list \<times> byte list \<times> proto" where
  "unpacker_loop env context [] s = ([], [], s)"
| "unpacker_loop env context (b # bs) s =
     (case unpack1 env b bs of
        OutOfData \<Rightarrow> ([], b # bs, s)
      | Malformed n \<Rightarrow> ([], drop n bs, s)
      | Unpacked message n \<Rightarrow>
          (case messageReceived env message context s of
             (Inl e, s') \<Rightarrow> ([message], drop n bs, s')
           | (Inr _, s') \<Rightarrow>
               (case unpacker_loop env context (drop n bs) s' of
                  (ms, rest, s'') \<Rightarrow> (message # ms, rest, s''))))"

definition rawDataReceived :: "env \<Rightarrow> byte list \<Rightarrow> ctx option \<Rightarrow> proto \<Rightarrow> pyval list \<times> proto" where
  "rawDataReceived env data context s =
     (case unpacker_loop env context (unpacker s @ data) s of
        (ms, rest, s') \<Rightarrow> (ms, s'\<lparr>unpacker := rest\<rparr>))"

text \<open>
  \<open>MsgpackStreamProtocol.dataReceived(data)\<close> and
  \<open>MsgpackDatagramProtocol.datagramReceived(data, address)\<close>.
\<close>

definition dataReceived :: "env \<Rightarrow> byte list \<Rightarrow> proto \<Rightarrow> pyval list \<times> proto" where
  "dataReceived env data s = rawDataReceived env data None s"

definition datagramReceived :: "env \<Rightarrow> byte list \<Rightarrow> address \<Rightarrow> proto \<Rightarrow> pyval list \<times> proto" where
  "datagramReceived env data a s = rawDataReceived env data (Some (Context (Some a))) s"

section \<open>Events\<close>

text \<open>
  What happens to a protocol object: the calls of its user (\<open>createRequest\<close>,
  \<open>createNotification\<close>, \<open>closeConnection\<close>), of the transport and the reactor, and of the
  application when it fires a Deferred a remote method returned. An exception that leaves
  a call goes to the caller or is logged by the reactor; the object stays as the call
  left it. A call of a method the object's class does not have changes nothing.
\<close>

datatype event =
    ConnectionMade | ConnectionLostWith error | TimeoutConnection | DataReceived "byte list"
  | StartProtocol | ConnectionRefused | DatagramReceived "byte list" address | DelayedCallRuns nat
  | CloseConnection
  | CreateRequest pyval pyval | CreateNotification pyval pyval
  | ResultFires nat outcome

fun step :: "env \<Rightarrow> event \<Rightarrow> proto \<Rightarrow> proto" where
  "step env ConnectionMade s = (if kind s = Stream then connectionMade s else s)"
| "step env (ConnectionLostWith reason) s = (if kind s = Stream then snd (connectionLost reason s) else s)"
| "step env TimeoutConnection s = (if kind s = Stream then snd (timeoutConnection s) else s)"
| "step env (DataReceived data) s = (if kind s = Stream then snd (dataReceived env data s) else s)"
| "step env StartProtocol s = (if kind s = Datagram then startProtocol s else s)"
| "step env ConnectionRefused s = (if kind s = Datagram then snd (connectionRefused s) else s)"
| "step env (DatagramReceived data a) s = (if kind s = Datagram then snd (datagramReceived env data a s) else s)"
| "step env (DelayedCallRuns dc) s = (if kind s = Datagram then snd (runDelayedCall dc s) else s)"
| "step env CloseConnection s = closeConnection s"
| "step env (CreateRequest m params) s = snd (createRequest env m params s)"
| "step env (CreateNotification m params) s = snd (createNotification env m params s)"
| "step env (ResultFires d out) s = snd (fireResult env d out s)"

fun run :: "env \<Rightarrow> event list \<Rightarrow> proto \<Rightarrow> proto" where
  "run env [] s = s"
| "run env (ev # evs) s = run env evs (step env ev s)"

text \<open>The msgids that the \<open>createRequest\<close> calls of a sequence of events assign, in order.\<close>

fun assigned_msgids :: "env \<Rightarrow> event list \<Rightarrow> proto \<Rightarrow> int list" where
  "assigned_msgids env [] s = []"
| "assigned_msgids env (CreateRequest m params # evs) s =
     (case createRequest env m params s of
        (Inl e, s') \<Rightarrow> assigned_msgids env evs s'
      | (Inr (d, msgid), s') \<Rightarrow> msgid # assigned_msgids env evs s')"
| "assigned_msgids env (ev # evs) s = assigned_msgids env evs (step env ev s)"

section \<open>An instance of the collaborators\<close>

text \<open>
  A packer and an unpacker for the one-byte formats of MessagePack: nil (\<open>0xc0\<close>), false and
  true (\<open>0xc2\<close>, \<open>0xc3\<close>), the integers from -32 to 127 (fixint), ASCII strings of up to 31
  characters (fixstr, \<open>0xa0 + length\<close>) and arrays of up to 15 elements (fixarray,
  \<open>0x90 + length\<close>). On these they agree with msgpack. The packer refuses every other
  value. The unpacker raises on every other first byte of an object, which it has consumed
  with the bytes before it, as msgpack does on the byte \<open>0xc1\<close>; the other formats of
  MessagePack are not modelled.
\<close>

definition char_of_byte :: "byte \<Rightarrow> char" where
  "char_of_byte b = Char (bit b 0) (bit b 1) (bit b 2) (bit b 3) (bit b 4) (bit b 5) (bit b 6) (bit b 7)"

fun pack_fix :: "pyval \<Rightarrow> byte list option" where
  "pack_fix PNone = Some [0xc0]"
| "pack_fix (PBool b) = Some [if b then 0xc3 else 0xc2]"
| "pack_fix (PInt i) = (if -32 \<le> i \<and> i < 128 then Some [word_of_int i] else None)"
| "pack_fix (PStr s) =
     (if length s < 32 \<and> list_all (\<lambda>c. of_char c < (128 :: nat)) s
      then Some ((0xa0 + of_nat (length s)) # map (\<lambda>c. of_nat (of_char c)) s) else None)"
| "pack_fix (PList xs) =
     (if length xs < 16 then
        (case those (map pack_fix xs) of
           None \<Rightarrow> None
         | Some bss \<Rightarrow> Some ((0x90 + of_nat (length xs)) # concat bss))
      else None)"
| "pack_fix (PObj n) = None"

fun unpack_items :: "(byte list \<Rightarrow> pyval unpacked) \<Rightarrow> nat \<Rightarrow> byte list \<Rightarrow> pyval list unpacked" where
  "unpack_items f 0 bs = Unpacked [] 0"
| "unpack_items f (Suc n) bs =
     (case f bs of
        OutOfData \<Rightarrow> OutOfData
      | Malformed k \<Rightarrow> Malformed k
      | Unpacked v k \<Rightarrow>
          (case unpack_items f n (drop k bs) of
             OutOfData \<Rightarrow> OutOfData
           | Malformed m \<Rightarrow> Malformed (k + m)
           | Unpacked vs m \<Rightarrow> Unpacked (v # vs) (k + m)))"

text \<open>
  \<open>unpack_obj fuel bs\<close> reads one object from the front of \<open>bs\<close> and counts the bytes it
  has consumed; \<open>fuel\<close> bounds the nesting of arrays.
\<close>

fun unpack_obj :: "nat \<Rightarrow> byte list \<Rightarrow> pyval unpacked" where
  "unpack_obj 0 bs = Malformed 0"
| "unpack_obj (Suc fuel) [] = OutOfData"
| "unpack_obj (Suc fuel) (b # bs) =
     (if b < 0x80 then Unpacked (PInt (uint b)) 1
      else if b < 0x90 then Malformed 1
      else if b < 0xa0 then
        (case unpack_items (unpack_obj fuel) (unat (b - 0x90)) bs of
           OutOfData \<Rightarrow> OutOfData
         | Malformed n \<Rightarrow> Malformed (Suc n)
         | Unpacked vs n \<Rightarrow> Unpacked (PList vs) (Suc n))
      else if b < 0xc0 then
        (if length bs < unat (b - 0xa0) then OutOfData
         else Unpacked (PStr (map char_of_byte (take (unat (b - 0xa0)) bs))) (Suc (unat (b - 0xa0))))
      else if b = 0xc0 then Unpacked PNone 1
      else if b = 0xc2 then Unpacked (PBool False) 1
      else if b = 0xc3 then Unpacked (PBool True) 1
      else if 0xe0 \<le> b then Unpacked (PInt (sint b)) 1
      else Malformed 1)"

definition fix_unpack1 :: "byte \<Rightarrow> byte list \<Rightarrow> pyval unpacked" where
  "fix_unpack1 b bs =
     (case unpack_obj (Suc (Suc (length bs))) (b # bs) of
        OutOfData \<Rightarrow> OutOfData
      | Malformed n \<Rightarrow> Malformed (n - 1)
      | Unpacked v n \<Rightarrow> Unpacked v (n - 1))"

text \<open>
  Two remote methods: \<open>echo\<close> returns its one argument, \<open>slow\<close> returns a Deferred.
\<close>

definition example_methods :: "pyval \<Rightarrow> error + remote_method" where
  "example_methods name =
     (if name = PStr ''echo'' then
        Inr (RemoteMethod False (\<lambda>params kw. case params of PList [x] \<Rightarrow> Returns x | _ \<Rightarrow> Raises TypeError))
      else if name = PStr ''slow'' then Inr (RemoteMethod False (\<lambda>params kw. ReturnsDeferred))
      else Inl AttributeError)"

definition example_env :: env where
  "example_env =
     \<lparr> pack = (\<lambda>v. case pack_fix v of None \<Rightarrow> Inl PackError | Some bs \<Rightarrow> Inr bs),
       unpack1 = fix_unpack1,
       remote_methods = example_methods,
       getErrorMessage = (\<lambda>e. PStr ''error''),
       getBriefTraceback = (\<lambda>e. PStr ''traceback'') \<rparr>"

text \<open>
  A stream connection on which two requests were sent and a Response for the first has
  arrived; a datagram protocol with a timeout of 50 on which one request was sent; a
  stream connection that has received the Request \<open>[0, 7, "slow", []]\<close>, whose remote
  method has returned a Deferred.
\<close>

definition example_stream_events :: "event list" where
  "example_stream_events =
     [ConnectionMade,
      CreateRequest (PStr ''echo'') (PList [PStr ''hi'']),
      CreateRequest (PStr ''echo'') (PList [PStr ''ho'']),
      DataReceived [0x94, 0x01, 0x01, 0xc0, 0xa2, 0x68, 0x69]]"

definition example_datagram :: proto where
  "example_datagram =
     snd (dgram_createRequest example_env (PStr ''echo'') [PStr ''hi'']
            (startProtocol (init Datagram False (Some 50) (Some (''peer'', 9)))))"

definition example_busy :: proto where
  "example_busy =
     snd (dataReceived example_env [0x94, 0x00, 0x07, 0xa4, 0x73, 0x6c, 0x6f, 0x77, 0x90]
            (connectionMade (init Stream False None None)))"

section \<open>Invariants of the pending requests\<close>

text \<open>
  What the theorems below need to say about a protocol object: the part of it that the
  requests sent depend on, the part no call but \<open>createRequest\<close> changes, and the invariant
  of the outgoing requests: no Deferred is registered twice, every registered msgid is at
  most the counter, every registered Deferred exists, and on a stream none of them has
  been fired.
\<close>

definition core :: "proto \<Rightarrow> kind \<times> (pykey \<times> nat) list \<times> outcome option list \<times> int" where
  "core s = (kind s, outgoing_requests s, deferreds s, next_msgid s)"

definition static :: "proto \<Rightarrow> kind \<times> int" where
  "static s = (kind s, next_msgid s)"

definition key_le :: "int \<Rightarrow> pykey \<Rightarrow> bool" where
  "key_le n k = (case k of KInt i \<Rightarrow> i \<le> n | _ \<Rightarrow> False)"

definition outgoing_ok :: "proto \<Rightarrow> bool" where
  "outgoing_ok s =
     (distinct (map snd (outgoing_requests s)) \<and>
      list_all (\<lambda>p. key_le (next_msgid s) (fst p) \<and> snd p < length (deferreds s) \<and>
                 (kind s = Datagram \<or> deferreds s ! snd p = None)) (outgoing_requests s))"

definition keeps :: "proto \<Rightarrow> proto \<Rightarrow> bool" where
  "keeps s s' = (static s' = static s \<and> (outgoing_ok s \<longrightarrow> outgoing_ok s'))"

section \<open>Lemmas on the pending requests\<close>

declare callbackOutgoingRequests.simps [simp del]

lemma fold_update_comm:
  "fold (\<lambda>d ds. ds[d := v]) xs (ds[d := v]) = (fold (\<lambda>d ds. ds[d := v]) xs ds)[d := v]"
proof (induction xs arbitrary: ds)
  case Nil
  show ?case by simp
next
  case (Cons b xs)
  show ?case
  proof (cases "d = b")
    case True
    then show ?thesis using Cons.IH [of "ds[b := v]"] by simp
  next
    case False
    then show ?thesis using Cons.IH by (simp add: list_update_swap)
  qed
qed

lemma length_fold_update: "length (fold (\<lambda>d ds. ds[d := v]) xs ds) = length ds"
  by (induction xs arbitrary: ds) auto

lemma nth_fold_update:
  "d < length ds \<Longrightarrow> fold (\<lambda>d ds. ds[d := v]) xs ds ! d = (if d \<in> set xs then v else ds ! d)"
  by (induction xs arbitrary: ds) (auto simp: nth_list_update)

lemma callbackOutgoingRequests_all:
  "outgoing_requests s = xs \<Longrightarrow> distinct (map snd xs) \<Longrightarrow>
   list_all (\<lambda>(k, d). d < length (deferreds s) \<and> deferreds s ! d = None) xs \<Longrightarrow>
   callbackOutgoingRequests e s =
     (Inr (), s\<lparr>outgoing_requests := [],
               deferreds := fold (\<lambda>d ds. ds[d := Some (Failed e)]) (map snd xs) (deferreds s)\<rparr>)"
proof (induction xs arbitrary: s rule: rev_induct)
  case Nil
  then show ?case by (simp add: callbackOutgoingRequests.simps)
next
  case (snoc x xs)
  obtain k d where x: "x = (k, d)" by (cases x)
  let ?s1 = "s\<lparr>outgoing_requests := xs\<rparr>"
  let ?s2 = "?s1\<lparr>deferreds := (deferreds s)[d := Some (Failed e)]\<rparr>"
  from snoc.prems x have d: "d < length (deferreds s)" "deferreds s ! d = None"
    and dnot: "d \<notin> snd ` set xs" and dist: "distinct (map snd xs)"
    and rest: "list_all (\<lambda>(k, d). d < length (deferreds s) \<and> deferreds s ! d = None) xs"
    by auto
  have f: "fire d (Failed e) ?s1 = (Inr (), ?s2)"
    using d by (simp add: fire_def)
  have rest2: "list_all (\<lambda>(k, d'). d' < length (deferreds ?s2) \<and> deferreds ?s2 ! d' = None) xs"
    using rest dnot by (induction xs) (auto simp: nth_list_update)
  have ih: "callbackOutgoingRequests e ?s2 =
     (Inr (), ?s2\<lparr>outgoing_requests := [],
               deferreds := fold (\<lambda>d ds. ds[d := Some (Failed e)]) (map snd xs) (deferreds ?s2)\<rparr>)"
    by (rule snoc.IH) (use dist rest2 in simp_all)
  show ?case
    apply (subst callbackOutgoingRequests.simps)
    using snoc.prems(1) x f ih
    apply (simp add: fold_update_comm)
    done
qed

lemma writeRawData_core: "core (snd (writeRawData m c s)) = core s"
  by (simp add: writeRawData_def core_def split: kind.splits option.splits)

lemma base_writeMessage_core: "core (snd (base_writeMessage env m c s)) = core s"
  using writeRawData_core by (simp add: base_writeMessage_def split: sum.splits)

lemma dgram_writeMessage_core: "core (snd (dgram_writeMessage env m c s)) = core s"
proof -
  have "core (snd (base_writeMessage env m c s')) = core s" if "core s' = core s" for s'
    using that base_writeMessage_core by simp
  then show ?thesis
    by (simp add: dgram_writeMessage_def Let_def core_def split: list.splits option.splits)
qed

lemma writeMessage_core: "core (snd (writeMessage env m c s)) = core s"
  by (simp add: writeMessage_def base_writeMessage_core dgram_writeMessage_core split: kind.splits)

lemma respondError_core: "core (snd (respondError env msgid err r s)) = core s"
  by (simp add: respondError_def writeMessage_core split: option.splits)

lemma endRequest_core: "core (snd (endRequest msgid s)) = core s"
  by (simp add: endRequest_def core_def split: option.splits)

lemma runCallbacks_core: "core (snd (runCallbacks env msgid out s)) = core s"
proof -
  have a: "core (snd (respondCallback env v msgid s')) = core s'" for v s'
    by (simp add: respondCallback_def respondError_core)
  have b: "core (snd (respondErrback env e msgid s')) = core s'" for e s'
    by (simp add: respondErrback_def respondError_core)
  have c: "core (snd (endRequest msgid s')) = core s'" for s'
    by (rule endRequest_core)
  show ?thesis
    unfolding runCallbacks_def Let_def
    by (auto split: outcome.splits prod.splits sum.splits
        simp: a [THEN trans] b [THEN trans] c [THEN trans])
       (metis a b c snd_conv)+
qed

lemma requestReceived_core: "core (snd (requestReceived env m c s)) = core s"
proof -
  have "core (snd (runCallbacks env msgid x s')) = core s" if "core s' = core s" for msgid x s'
    using that runCallbacks_core by simp
  then show ?thesis
    by (simp add: requestReceived_def Let_def core_def split: list.splits option.splits)
qed

lemma fireResult_core: "core (snd (fireResult env d out s)) = core s"
proof -
  have "core (snd (runCallbacks env msgid x s')) = core s" if "core s' = core s" for msgid x s'
    using that runCallbacks_core by simp
  then show ?thesis
    by (simp add: fireResult_def core_def split: prod.splits option.splits)
qed

lemma notificationReceived_core: "core (snd (notificationReceived env m s)) = core s"
  by (simp add: notificationReceived_def split: list.splits)

lemma createNotification_core: "core (snd (createNotification env m p s)) = core s"
  by (simp add: createNotification_def writeMessage_core Let_def)

lemma cancel_core: "core (snd (cancel dc s)) = core s"
  by (simp add: cancel_def core_def split: dcstate.splits)

lemma outgoing_ok_core: "core s' = core s \<Longrightarrow> outgoing_ok s' = outgoing_ok s"
  by (simp add: core_def outgoing_ok_def)

lemma outgoing_ok_sub:
  assumes "outgoing_ok s" and "distinct (map snd xs)" and "set xs \<subseteq> set (outgoing_requests s)"
  shows "outgoing_ok (s\<lparr>outgoing_requests := xs\<rparr>)"
  using assms by (fastforce simp: outgoing_ok_def list_all_iff)

lemma distinct_snd_delete: "distinct (map snd xs) \<Longrightarrow> distinct (map snd (AList.delete k xs))"
  by (induction xs) (auto simp: AList.delete_eq)

lemma set_delete_sub: "set (AList.delete k xs) \<subseteq> set xs"
  by (auto simp: AList.delete_eq)

lemma fire_ok:
  assumes "outgoing_ok s" and "kind s = Datagram \<or> d \<notin> snd ` set (outgoing_requests s)"
  shows "outgoing_ok (snd (fire d out s))"
proof (cases "d < length (deferreds s) \<and> deferreds s ! d = None")
  case False
  then show ?thesis using assms(1) by (auto simp: fire_def split: option.splits)
next
  case True
  then have eq: "snd (fire d out s) = s\<lparr>deferreds := (deferreds s)[d := Some out]\<rparr>"
    by (simp add: fire_def)
  have "kind s = Datagram \<or> (deferreds s)[d := Some out] ! snd p = None"
    if "p \<in> set (outgoing_requests s)" for p
  proof (cases "kind s = Datagram")
    case True then show ?thesis by simp
  next
    case False
    with assms(2) that have "snd p \<noteq> d" by auto
    moreover from assms(1) that False have "deferreds s ! snd p = None"
      by (auto simp: outgoing_ok_def list_all_iff)
    ultimately show ?thesis by simp
  qed
  with assms(1) show ?thesis
    unfolding eq by (simp add: outgoing_ok_def list_all_iff)
qed

lemma popped_not_left:
  assumes "distinct (map snd xs)" and "map_of xs k = Some d"
  shows "d \<notin> snd ` set (AList.delete k xs)"
proof
  assume "d \<in> snd ` set (AList.delete k xs)"
  then obtain k' where k': "(k', d) \<in> set xs" "k' \<noteq> k"
    by (auto simp: AList.delete_eq)
  from assms(2) have "(k, d) \<in> set xs" by (rule map_of_SomeD)
  with k' assms(1) show False
    by (metis distinct_map inj_onD snd_conv prod.inject)
qed

lemma base_responseReceived_cases:
  "snd (base_responseReceived m s) = s \<or>
   (\<exists>k d out. map_of (outgoing_requests s) k = Some d \<and>
      snd (base_responseReceived m s) =
        snd (fire d out (s\<lparr>outgoing_requests := AList.delete k (outgoing_requests s)\<rparr>)))"
  unfolding base_responseReceived_def Let_def
  by (auto split: list.splits option.splits)

lemma base_responseReceived_ok:
  assumes "outgoing_ok s"
  shows "outgoing_ok (snd (base_responseReceived m s))"
proof -
  have "outgoing_ok (snd (fire d out (s\<lparr>outgoing_requests := AList.delete k (outgoing_requests s)\<rparr>)))"
    if "map_of (outgoing_requests s) k = Some d" for k d out
  proof (rule fire_ok)
    have "distinct (map snd (outgoing_requests s))"
      using assms by (simp add: outgoing_ok_def)
    then show "outgoing_ok (s\<lparr>outgoing_requests := AList.delete k (outgoing_requests s)\<rparr>)"
      using assms by (intro outgoing_ok_sub distinct_snd_delete set_delete_sub)
    show "kind (s\<lparr>outgoing_requests := AList.delete k (outgoing_requests s)\<rparr>) = Datagram \<or>
          d \<notin> snd ` set (outgoing_requests (s\<lparr>outgoing_requests := AList.delete k (outgoing_requests s)\<rparr>))"
      using assms that popped_not_left [of "outgoing_requests s" k d] by (simp add: outgoing_ok_def)
  qed
  with assms base_responseReceived_cases [of m s] show ?thesis
    by (elim disjE exE conjE) simp_all
qed

lemma dgram_responseReceived_ok:
  assumes "outgoing_ok s"
  shows "outgoing_ok (snd (dgram_responseReceived m s))"
proof -
  have c: "outgoing_ok (snd (cancel dc s))" for dc
    using assms outgoing_ok_core [OF cancel_core] by simp
  have b: "outgoing_ok (snd (base_responseReceived m s'))" if "outgoing_ok s'" for s'
    using that by (rule base_responseReceived_ok)
  have "outgoing_ok (snd (case cancel dc s of (Inl e, s1) \<Rightarrow> (Inl e, s1)
                          | (Inr u, s1) \<Rightarrow> base_responseReceived m s1))" for dc
  proof (cases "cancel dc s")
    case (Pair r s1)
    with c [of dc] have "outgoing_ok s1" by simp
    with Pair b show ?thesis by (cases r) simp_all
  qed
  with assms b show ?thesis
    by (simp add: dgram_responseReceived_def split: list.splits option.splits)
qed

lemma responseReceived_ok:
  assumes "outgoing_ok s"
  shows "outgoing_ok (snd (responseReceived m s))"
proof (cases "kind s")
  case Stream
  then show ?thesis using base_responseReceived_ok [OF assms] by (simp add: responseReceived_def)
next
  case Datagram
  then show ?thesis using dgram_responseReceived_ok [OF assms] by (simp add: responseReceived_def)
qed

lemma static_core: "core s' = core s \<Longrightarrow> static s' = static s"
  by (simp add: core_def static_def)

lemma fire_static: "static (snd (fire d out s)) = static s"
  by (simp add: fire_def static_def split: option.splits)

lemma base_responseReceived_static: "static (snd (base_responseReceived m s)) = static s"
  using base_responseReceived_cases [of m s]
  by (elim disjE exE conjE) (simp_all add: fire_static, simp add: static_def)

lemma responseReceived_static: "static (snd (responseReceived m s)) = static s"
proof -
  have c: "static (snd (cancel dc s)) = static s" for dc
    by (rule static_core [OF cancel_core])
  have "static (snd (case cancel dc s of (Inl e, s1) \<Rightarrow> (Inl e, s1)
                          | (Inr u, s1) \<Rightarrow> base_responseReceived m s1)) = static s" for dc
  proof (cases "cancel dc s")
    case (Pair r s1)
    with c [of dc] have "static s1 = static s" by simp
    with Pair base_responseReceived_static [of m s1] show ?thesis by (cases r) simp_all
  qed
  then have "static (snd (dgram_responseReceived m s)) = static s"
    by (simp add: dgram_responseReceived_def base_responseReceived_static split: list.splits option.splits)
  then show ?thesis
    by (cases "kind s") (simp_all add: responseReceived_def base_responseReceived_static)
qed

lemma callbackOutgoingRequests_static: "static (snd (callbackOutgoingRequests e s)) = static s"
proof (induction e s rule: callbackOutgoingRequests.induct)
  case (1 e s)
  show ?case
  proof (cases "outgoing_requests s = []")
    case True
    then show ?thesis by (simp add: callbackOutgoingRequests.simps)
  next
    case False
    let ?d = "snd (last (outgoing_requests s))"
    let ?s1 = "s\<lparr>outgoing_requests := butlast (outgoing_requests s)\<rparr>"
    have s1: "static (snd (fire ?d (Failed e) ?s1)) = static s"
      using fire_static [of ?d "Failed e" ?s1] by (simp add: static_def)
    show ?thesis
    proof (cases "fire ?d (Failed e) ?s1")
      case (Pair r s2)
      show ?thesis
      proof (cases r)
        case (Inl x)
        with Pair False s1 show ?thesis
          by (subst callbackOutgoingRequests.simps) (simp add: Let_def)
      next
        case (Inr u)
        with Pair False "1.IH" [OF False refl refl Pair [symmetric]] s1 show ?thesis
          by (subst callbackOutgoingRequests.simps) (simp add: Let_def)
      qed
    qed
  qed
qed

lemma callbackOutgoingRequests_ok:
  "outgoing_ok s \<Longrightarrow> outgoing_ok (snd (callbackOutgoingRequests e s))"
proof (induction e s rule: callbackOutgoingRequests.induct)
  case (1 e s)
  show ?case
  proof (cases "outgoing_requests s = []")
    case True
    with "1.prems" show ?thesis by (simp add: callbackOutgoingRequests.simps)
  next
    case False
    let ?d = "snd (last (outgoing_requests s))"
    let ?s1 = "s\<lparr>outgoing_requests := butlast (outgoing_requests s)\<rparr>"
    have dist: "distinct (map snd (outgoing_requests s))"
      using "1.prems" by (simp add: outgoing_ok_def)
    have ok1: "outgoing_ok ?s1"
      using "1.prems" dist by (intro outgoing_ok_sub) (auto simp: map_butlast distinct_butlast dest: in_set_butlastD)
    have "?d \<notin> snd ` set (butlast (outgoing_requests s))"
    proof -
      have "map snd (outgoing_requests s) = map snd (butlast (outgoing_requests s)) @ [?d]"
        using False by (metis append_butlast_last_id last_map map_butlast map_is_Nil_conv)
      with dist have "?d \<notin> set (map snd (butlast (outgoing_requests s)))"
        by (metis distinct_append distinct.simps(2) disjoint_iff list.set_intros(1) not_distinct_conv_prefix)
      then show ?thesis by simp
    qed
    then have ok2: "outgoing_ok (snd (fire ?d (Failed e) ?s1))"
      using ok1 by (intro fire_ok) simp_all
    show ?thesis
    proof (cases "fire ?d (Failed e) ?s1")
      case (Pair r s2)
      show ?thesis
      proof (cases r)
        case (Inl x)
        with Pair False ok2 show ?thesis
          by (subst callbackOutgoingRequests.simps) (simp add: Let_def)
      next
        case (Inr u)
        with Pair ok2 have "outgoing_ok s2" by simp
        with Pair Inr False "1.IH" [OF False refl refl Pair [symmetric] Inr] show ?thesis
          by (subst callbackOutgoingRequests.simps) (simp add: Let_def)
      qed
    qed
  qed
qed

lemma createRequest_Inr:
  assumes "createRequest env m p s = (Inr (d, msgid), s')"
  shows "msgid = next_msgid s + 1" and "next_msgid s' = msgid" and "kind s' = kind s"
    and "d = length (deferreds s)" and "deferreds s' = deferreds s @ [None]"
    and "outgoing_requests s' = AList.update (KInt msgid) d (outgoing_requests s)"
proof -
  let ?s1 = "s\<lparr>next_msgid := next_msgid s + 1\<rparr>"
  let ?w = "writeMessage env [PInt MSGTYPE_REQUEST, PInt (next_msgid s + 1), m, p] (getClientContext ?s1) ?s1"
  have c: "core (snd ?w) = core ?s1" by (rule writeMessage_core)
  obtain r s2 where w: "?w = (r, s2)" by (cases ?w)
  with c have s2: "kind s2 = kind s" "outgoing_requests s2 = outgoing_requests s"
    "deferreds s2 = deferreds s" "next_msgid s2 = next_msgid s + 1"
    by (simp_all add: core_def)
  from assms w have r: "\<exists>u. r = Inr u" and conn: "isConnected s"
    by (auto simp: createRequest_def getNextMsgid_def Let_def split: if_splits sum.splits)
  from assms w r conn
  have "d = length (deferreds s2) \<and> msgid = next_msgid s + 1 \<and>
        s' = s2\<lparr>deferreds := deferreds s2 @ [None],
               outgoing_requests := AList.update (KInt (next_msgid s + 1)) (length (deferreds s2)) (outgoing_requests s2)\<rparr>"
    by (auto simp: createRequest_def getNextMsgid_def Let_def)
  with s2 show "msgid = next_msgid s + 1" and "next_msgid s' = msgid" and "kind s' = kind s"
    and "d = length (deferreds s)" and "deferreds s' = deferreds s @ [None]"
    and "outgoing_requests s' = AList.update (KInt msgid) d (outgoing_requests s)"
    by simp_all
qed

lemma createRequest_Inl:
  assumes "createRequest env m p s = (Inl e, s')"
  shows "kind s' = kind s" and "outgoing_requests s' = outgoing_requests s"
    and "deferreds s' = deferreds s" and "next_msgid s \<le> next_msgid s'"
proof -
  let ?s1 = "s\<lparr>next_msgid := next_msgid s + 1\<rparr>"
  let ?w = "writeMessage env [PInt MSGTYPE_REQUEST, PInt (next_msgid s + 1), m, p] (getClientContext ?s1) ?s1"
  have c: "core (snd ?w) = core ?s1" by (rule writeMessage_core)
  obtain r s2 where w: "?w = (r, s2)" by (cases ?w)
  with c have s2: "kind s2 = kind s" "outgoing_requests s2 = outgoing_requests s"
    "deferreds s2 = deferreds s" "next_msgid s2 = next_msgid s + 1"
    by (simp_all add: core_def)
  from assms w have "s' = s \<or> s' = s2"
    by (auto simp: createRequest_def getNextMsgid_def Let_def split: if_splits sum.splits)
  with s2 show "kind s' = kind s" and "outgoing_requests s' = outgoing_requests s"
    and "deferreds s' = deferreds s" and "next_msgid s \<le> next_msgid s'"
    by auto
qed

lemma key_le_mono: "key_le n k \<Longrightarrow> n \<le> n' \<Longrightarrow> key_le n' k"
  by (auto simp: key_le_def split: pykey.splits)

lemma set_update_sub: "set (AList.update k v xs) \<subseteq> insert (k, v) (set xs)"
  by (induction xs) auto

lemma snd_set_update: "snd ` set (AList.update k v xs) \<subseteq> insert v (snd ` set xs)"
  by (induction xs) auto

lemma distinct_snd_update:
  "distinct (map snd xs) \<Longrightarrow> v \<notin> snd ` set xs \<Longrightarrow> distinct (map snd (AList.update k v xs))"
proof (induction xs)
  case Nil
  then show ?case by simp
next
  case (Cons x xs)
  then show ?case using snd_set_update [of k v xs] by (auto simp: image_iff)
qed

lemma createRequest_ok:
  assumes "outgoing_ok s"
  shows "outgoing_ok (snd (createRequest env m p s))"
proof (cases "createRequest env m p s")
  case (Pair r s')
  show ?thesis
  proof (cases r)
    case (Inl e)
    with Pair have "kind s' = kind s" "outgoing_requests s' = outgoing_requests s"
      "deferreds s' = deferreds s" "next_msgid s \<le> next_msgid s'"
      by (auto dest: createRequest_Inl)
    with assms Pair show ?thesis
      by (auto simp: outgoing_ok_def list_all_iff intro: key_le_mono)
  next
    case (Inr x)
    obtain d msgid where x: "x = (d, msgid)" by (cases x)
    note f = createRequest_Inr [OF Pair [unfolded Inr x]]
    have fresh: "d \<notin> snd ` set (outgoing_requests s)"
      using assms f(4) by (auto simp: outgoing_ok_def list_all_iff)
    have dist: "distinct (map snd (outgoing_requests s'))"
      unfolding f(6) using assms fresh by (intro distinct_snd_update) (simp_all add: outgoing_ok_def)
    have "key_le (next_msgid s') (fst q) \<and> snd q < length (deferreds s') \<and>
          (kind s' = Datagram \<or> deferreds s' ! snd q = None)"
      if "q \<in> set (outgoing_requests s')" for q
    proof -
      from that set_update_sub [of "KInt msgid" d "outgoing_requests s"]
      have "q = (KInt msgid, d) \<or> q \<in> set (outgoing_requests s)"
        unfolding f(6) by auto
      then show ?thesis
      proof
        assume "q = (KInt msgid, d)"
        then show ?thesis using f by (simp add: key_le_def)
      next
        assume q: "q \<in> set (outgoing_requests s)"
        with assms have "key_le (next_msgid s) (fst q)" "snd q < length (deferreds s)"
          "kind s = Datagram \<or> deferreds s ! snd q = None"
          by (auto simp: outgoing_ok_def list_all_iff)
        then show ?thesis using f by (auto simp: nth_append intro: key_le_mono)
      qed
    qed
    with dist Pair show ?thesis by (simp add: outgoing_ok_def list_all_iff)
  qed
qed

lemma createRequest_fresh:
  assumes "outgoing_ok s" and "createRequest env m p s = (Inr (d, msgid), s')"
  shows "map_of (outgoing_requests s) (KInt msgid) = None"
proof (rule ccontr)
  assume "map_of (outgoing_requests s) (KInt msgid) \<noteq> None"
  then obtain d' where "(KInt msgid, d') \<in> set (outgoing_requests s)"
    by (auto dest: map_of_SomeD)
  with assms(1) have "key_le (next_msgid s) (KInt msgid)"
    by (auto simp: outgoing_ok_def list_all_iff)
  with createRequest_Inr(1) [OF assms(2)] show False by (simp add: key_le_def)
qed

lemma keeps_refl: "keeps s s"
  by (simp add: keeps_def)

lemma keeps_trans: "keeps s s' \<Longrightarrow> keeps s' s'' \<Longrightarrow> keeps s s''"
  by (simp add: keeps_def)

lemma keeps_core: "core s' = core s \<Longrightarrow> keeps s s'"
  by (simp add: keeps_def static_def outgoing_ok_def core_def)

lemma keeps_unpacker: "keeps s (s\<lparr>unpacker := b\<rparr>)"
  by (rule keeps_core) (simp add: core_def)

lemma messageReceived_array_keeps: "keeps s (snd (messageReceived env (PList (t # ts)) c s))"
proof -
  have rq: "keeps s (snd (requestReceived env (t # ts) c s))"
    by (rule keeps_core [OF requestReceived_core])
  have rs: "keeps s (snd (responseReceived (t # ts) s))"
    unfolding keeps_def by (intro conjI impI responseReceived_static responseReceived_ok)
  have nt: "keeps s (snd (notificationReceived env (t # ts) s))"
    by (rule keeps_core [OF notificationReceived_core])
  have un: "keeps s (snd (undefinedMessageReceived (t # ts) s))"
    by (simp add: undefinedMessageReceived_def keeps_refl)
  have rq': "keeps s (snd (case requestReceived env (t # ts) c s of
        (Inl e, s') \<Rightarrow> (Inl e, s') | (Inr u, s') \<Rightarrow> (Inr (), s')))"
  proof (cases "requestReceived env (t # ts) c s")
    case (Pair r s')
    with rq show ?thesis by (cases r) simp_all
  qed
  show ?thesis
  proof (cases "py_eq_int t MSGTYPE_REQUEST")
    case True
    with rq' show ?thesis by (simp only: messageReceived.simps if_True)
  next
    case False
    note f1 = this
    show ?thesis
    proof (cases "py_eq_int t MSGTYPE_RESPONSE")
      case True
      with f1 rs show ?thesis by (simp only: messageReceived.simps if_True if_False)
    next
      case False
      note f2 = this
      show ?thesis
      proof (cases "py_eq_int t MSGTYPE_NOTIFICATION")
        case True
        with f1 f2 nt show ?thesis by (simp only: messageReceived.simps if_True if_False)
      next
        case False
        with f1 f2 un show ?thesis by (simp only: messageReceived.simps if_True if_False)
      qed
    qed
  qed
qed

lemma messageReceived_keeps: "keeps s (snd (messageReceived env m c s))"
proof (cases m)
  case (PList ms)
  then show ?thesis
    using messageReceived_array_keeps by (cases ms) (simp_all only: messageReceived.simps snd_conv keeps_refl)
next
  case (PStr str)
  then show ?thesis
    by (cases str) (simp_all only: messageReceived.simps snd_conv keeps_refl)
qed (simp_all only: messageReceived.simps snd_conv keeps_refl)

lemma unpacker_loop_keeps: "keeps s (snd (snd (unpacker_loop env c buf s)))"
proof (induction env c buf s rule: unpacker_loop.induct)
  case (1 env c s)
  show ?case by (simp add: keeps_refl)
next
  case (2 env c b bs s)
  show ?case
  proof (cases "unpack1 env b bs")
    case OutOfData
    then show ?thesis by (simp add: keeps_refl)
  next
    case (Malformed k)
    then show ?thesis by (simp add: keeps_refl)
  next
    case (Unpacked message n)
    obtain r s' where m: "messageReceived env message c s = (r, s')"
      by (cases "messageReceived env message c s")
    with messageReceived_keeps [of s env message c] have k: "keeps s s'" by simp
    show ?thesis
    proof (cases r)
      case (Inl e)
      with Unpacked m k show ?thesis by simp
    next
      case (Inr u)
      with "2.IH" [OF Unpacked m [symmetric]] have "keeps s' (snd (snd (unpacker_loop env c (drop n bs) s')))"
        by simp
      with k have "keeps s (snd (snd (unpacker_loop env c (drop n bs) s')))"
        by (rule keeps_trans)
      with Unpacked m Inr show ?thesis by (auto split: prod.splits)
    qed
  qed
qed

lemma rawDataReceived_keeps: "keeps s (snd (rawDataReceived env data c s))"
proof -
  obtain ms rest s' where u: "unpacker_loop env c (unpacker s @ data) s = (ms, rest, s')"
    by (cases "unpacker_loop env c (unpacker s @ data) s") auto
  with unpacker_loop_keeps [of s env c "unpacker s @ data"] have "keeps s s'" by simp
  then have "keeps s (s'\<lparr>unpacker := rest\<rparr>)"
    by (rule keeps_trans [OF _ keeps_unpacker])
  with u show ?thesis by (simp add: rawDataReceived_def)
qed

lemma timeoutRequest_keeps: "kind s = Datagram \<Longrightarrow> keeps s (snd (timeoutRequest msgid s))"
proof -
  assume k: "kind s = Datagram"
  have "keeps s (snd (fire d out s))" for d out
    unfolding keeps_def using k by (intro conjI impI fire_static fire_ok) simp_all
  then show ?thesis
    by (simp add: timeoutRequest_def keeps_refl split: option.splits)
qed

lemma runDelayedCall_keeps: "kind s = Datagram \<Longrightarrow> keeps s (snd (runDelayedCall dc s))"
proof -
  assume k: "kind s = Datagram"
  have "keeps s (s\<lparr>delayedCalls := x\<rparr>)" for x
    by (rule keeps_core) (simp add: core_def)
  moreover have "keeps (s\<lparr>delayedCalls := x\<rparr>) (snd (timeoutRequest a (s\<lparr>delayedCalls := x\<rparr>)))" for x a
    using k by (intro timeoutRequest_keeps) simp
  ultimately have "keeps s (snd (timeoutRequest a (s\<lparr>delayedCalls := x\<rparr>)))" for x a
    by (rule keeps_trans)
  then show ?thesis by (simp add: runDelayedCall_def keeps_refl)
qed

lemma callbackOutgoingRequests_keeps: "keeps s (snd (callbackOutgoingRequests e s))"
  unfolding keeps_def by (intro conjI impI callbackOutgoingRequests_static callbackOutgoingRequests_ok)

lemma step_keeps:
  assumes "\<And>m p. ev \<noteq> CreateRequest m p"
  shows "keeps s (step env ev s)"
proof (cases ev)
  case ConnectionMade
  then show ?thesis by (auto simp: connectionMade_def keeps_refl core_def intro!: keeps_core)
next
  case (ConnectionLostWith reason)
  have "keeps s (s\<lparr>connected := 0\<rparr>)" by (rule keeps_core) (simp add: core_def)
  then have "keeps s (snd (connectionLost reason s))"
    unfolding connectionLost_def by (rule keeps_trans [OF _ callbackOutgoingRequests_keeps])
  with ConnectionLostWith show ?thesis by (simp add: keeps_refl)
next
  case TimeoutConnection
  then show ?thesis by (simp add: keeps_refl timeoutConnection_def callbackOutgoingRequests_keeps)
next
  case (DataReceived data)
  then show ?thesis by (simp add: keeps_refl dataReceived_def rawDataReceived_keeps)
next
  case StartProtocol
  then show ?thesis by (auto simp: startProtocol_def keeps_refl core_def intro!: keeps_core)
next
  case ConnectionRefused
  then show ?thesis by (simp add: keeps_refl connectionRefused_def callbackOutgoingRequests_keeps)
next
  case (DatagramReceived data a)
  then show ?thesis by (simp add: keeps_refl datagramReceived_def rawDataReceived_keeps)
next
  case (DelayedCallRuns dc)
  then show ?thesis by (simp add: keeps_refl runDelayedCall_keeps)
next
  case CloseConnection
  then show ?thesis by (auto simp: closeConnection_def keeps_refl core_def intro!: keeps_core split: kind.splits)
next
  case (CreateRequest m p)
  with assms [of m p] show ?thesis by blast
next
  case (CreateNotification m p)
  then show ?thesis by (simp add: keeps_core [OF createNotification_core])
next
  case (ResultFires d out)
  then show ?thesis by (simp add: keeps_core [OF fireResult_core])
qed

lemma step_ok: "outgoing_ok s \<Longrightarrow> outgoing_ok (step env ev s)"
proof (cases "\<exists>m p. ev = CreateRequest m p")
  case True
  then show "outgoing_ok s \<Longrightarrow> ?thesis" by (auto simp: createRequest_ok)
next
  case False
  then have "keeps s (step env ev s)" by (intro step_keeps) auto
  then show "outgoing_ok s \<Longrightarrow> ?thesis" by (simp add: keeps_def)
qed

lemma step_next_msgid: "next_msgid s \<le> next_msgid (step env ev s)"
proof (cases "\<exists>m p. ev = CreateRequest m p")
  case True
  then obtain m p where ev: "ev = CreateRequest m p" by auto
  show ?thesis
  proof (cases "createRequest env m p s")
    case (Pair r s')
    show ?thesis
    proof (cases r)
      case (Inl e)
      with Pair ev createRequest_Inl(4) [of env m p s e s'] show ?thesis by simp
    next
      case (Inr x)
      obtain d msgid where x: "x = (d, msgid)" by (cases x)
      with Pair Inr ev createRequest_Inr(1,2) [of env m p s d msgid s'] show ?thesis by simp
    qed
  qed
next
  case False
  then have "keeps s (step env ev s)" by (intro step_keeps) auto
  then show ?thesis by (simp add: keeps_def static_def)
qed

lemma run_ok: "outgoing_ok s \<Longrightarrow> outgoing_ok (run env evs s)"
  by (induction evs arbitrary: s) (simp_all add: step_ok)

lemma init_ok: "outgoing_ok (init k se t a)"
  by (simp add: outgoing_ok_def init_def)

lemma assigned_msgids_above: "i \<in> set (assigned_msgids env evs s) \<Longrightarrow> next_msgid s < i"
proof (induction evs arbitrary: s)
  case Nil
  then show ?case by simp
next
  case (Cons ev evs)
  show ?case
  proof (cases "\<exists>m p. ev = CreateRequest m p")
    case True
    then obtain m p where ev: "ev = CreateRequest m p" by auto
    obtain r s' where c: "createRequest env m p s = (r, s')" by (cases "createRequest env m p s")
    show ?thesis
    proof (cases r)
      case (Inl e)
      with Cons.prems ev c have "i \<in> set (assigned_msgids env evs s')" by simp
      then have "next_msgid s' < i" by (rule Cons.IH)
      with createRequest_Inl(4) [OF c [unfolded Inl]] show ?thesis by simp
    next
      case (Inr x)
      obtain d msgid where x: "x = (d, msgid)" by (cases x)
      note f = createRequest_Inr [OF c [unfolded Inr x]]
      from Cons.prems ev c Inr x have "i = msgid \<or> i \<in> set (assigned_msgids env evs s')" by simp
      then show ?thesis
      proof
        assume "i = msgid" with f show ?thesis by simp
      next
        assume "i \<in> set (assigned_msgids env evs s')"
        then have "next_msgid s' < i" by (rule Cons.IH)
        with f show ?thesis by simp
      qed
    qed
  next
    case False
    with Cons.prems have "i \<in> set (assigned_msgids env evs (step env ev s))"
      by (cases ev) auto
    then have "next_msgid (step env ev s) < i" by (rule Cons.IH)
    with step_next_msgid [of s env ev] show ?thesis by simp
  qed
qed

lemma assigned_msgids_sorted: "sorted_wrt (<) (assigned_msgids env evs s)"
proof (induction evs arbitrary: s)
  case Nil
  show ?case by simp
next
  case (Cons ev evs)
  show ?case
  proof (cases "\<exists>m p. ev = CreateRequest m p")
    case True
    then obtain m p where ev: "ev = CreateRequest m p" by auto
    obtain r s' where c: "createRequest env m p s = (r, s')" by (cases "createRequest env m p s")
    show ?thesis
    proof (cases r)
      case (Inl e)
      with ev c Cons.IH [of s'] show ?thesis by simp
    next
      case (Inr x)
      obtain d msgid where x: "x = (d, msgid)" by (cases x)
      note f = createRequest_Inr [OF c [unfolded Inr x]]
      have "msgid < i" if "i \<in> set (assigned_msgids env evs s')" for i
        using assigned_msgids_above [OF that] f by simp
      with ev c Inr x Cons.IH [of s'] show ?thesis by auto
    qed
  next
    case False
    with Cons.IH [of "step env ev s"] show ?thesis by (cases ev) auto
  qed
qed

lemma static_run: "static (run env evs s) = (kind s, next_msgid (run env evs s))"
proof (induction evs arbitrary: s)
  case Nil
  show ?case by (simp add: static_def)
next
  case (Cons ev evs)
  have "kind (step env ev s) = kind s"
  proof (cases "\<exists>m p. ev = CreateRequest m p")
    case True
    then obtain m p where ev: "ev = CreateRequest m p" by auto
    obtain r s' where c: "createRequest env m p s = (r, s')" by (cases "createRequest env m p s")
    show ?thesis
    proof (cases r)
      case (Inl e)
      with c ev createRequest_Inl(1) [of env m p s e s'] show ?thesis by simp
    next
      case (Inr x)
      obtain d msgid where x: "x = (d, msgid)" by (cases x)
      with Inr c ev createRequest_Inr(3) [of env m p s d msgid s'] show ?thesis by simp
    qed
  next
    case False
    then have "keeps s (step env ev s)" by (intro step_keeps) auto
    then show ?thesis by (simp add: keeps_def static_def)
  qed
  with Cons.IH [of "step env ev s"] show ?case by simp
qed

lemma kind_run: "kind (run env evs s) = kind s"
  using static_run [of env evs s] by (simp add: static_def)

section \<open>Response without a pending request\<close>

lemma base_responseReceived_no_entry:
  "hashkey msgid = Some k \<Longrightarrow> map_of (outgoing_requests s) k = None \<Longrightarrow>
   base_responseReceived [t, msgid, err, result] s = (Inl UnboundLocalError, s)"
  by (simp add: base_responseReceived_def)

text \<open>
  C1. A Response whose msgid has no entry in the outgoing table is to be discarded silently.
  The source does not: on a freshly constructed stream protocol the Response
  \<open>[1, 5, nil, "x"]\<close> makes \<open>responseReceived\<close> raise \<open>UnboundLocalError\<close>; no Deferred is
  fired and the protocol object is left as it was.
\<close>

theorem responseReceived_unknown_msgid_raises:
  "responseReceived [PInt 1, PInt 5, PNone, PStr ''x''] (init Stream False None None)
     = (Inl UnboundLocalError, init Stream False None None)"
  by (simp add: responseReceived_def base_responseReceived_def init_def)

section \<open>The per-request timeout of a datagram protocol\<close>

text \<open>
  C3. When the timeout of a request fires first, the request is to fail with
  \<open>TimeoutError\<close> and its entry is to leave the outgoing table. \<open>timeoutRequest\<close> reads the
  entry with \<open>get\<close> and fires the Deferred; it does not remove the entry. On the example,
  after the reactor has run the DelayedCall of request 1, the Deferred has failed with
  \<open>TimeoutError\<close> and the table still maps msgid 1 to it.
\<close>

theorem timeoutRequest_keeps_entry:
  "runDelayedCall 0 example_datagram =
     (Inr (), example_datagram\<lparr>deferreds := [Some (Failed TimeoutError)],
                               delayedCalls := [DelayedCall (PInt 1) Ran]\<rparr>) \<and>
   outgoing_requests (snd (runDelayedCall 0 example_datagram)) = [(KInt 1, 0)]"
  by code_simp


section \<open>Disconnecting a stream\<close>

text \<open>
  C4, as amended. On every stream connection, whatever happened to it before,
  \<open>connectionLost(reason)\<close> returns normally, leaves the outgoing table empty and fires
  every Deferred that was in the table with the failure \<open>reason\<close> itself, so none of them
  succeeds; the Deferreds that were not in the table are left as they were.
\<close>

theorem connectionLost_fails_all:
  "let s = run env evs (init Stream se t a); s' = snd (connectionLost reason s) in
     fst (connectionLost reason s) = Inr () \<and>
     outgoing_requests s' = [] \<and>
     length (deferreds s') = length (deferreds s) \<and>
     list_all (\<lambda>p. deferreds s' ! snd p = Some (Failed reason)) (outgoing_requests s) \<and>
     (\<forall>d < length (deferreds s). d \<notin> snd ` set (outgoing_requests s) \<longrightarrow> deferreds s' ! d = deferreds s ! d)"
proof -
  define s where "s = run env evs (init Stream se t a)"
  define s0 where "s0 = s\<lparr>connected := 0\<rparr>"
  have ok: "outgoing_ok s" unfolding s_def by (intro run_ok init_ok)
  have k: "kind s = Stream" unfolding s_def by (simp add: kind_run init_def)
  from ok k have dist: "distinct (map snd (outgoing_requests s0))"
    and pend: "list_all (\<lambda>(k, d). d < length (deferreds s0) \<and> deferreds s0 ! d = None) (outgoing_requests s0)"
    by (auto simp: outgoing_ok_def s0_def list_all_iff)
  have valid: "snd p < length (deferreds s)" if "p \<in> set (outgoing_requests s)" for p
    using ok that by (auto simp: outgoing_ok_def list_all_iff)
  have r: "connectionLost reason s =
     (Inr (), s0\<lparr>outgoing_requests := [],
               deferreds := fold (\<lambda>d ds. ds[d := Some (Failed reason)]) (map snd (outgoing_requests s)) (deferreds s)\<rparr>)"
    unfolding connectionLost_def
    using callbackOutgoingRequests_all [OF refl dist pend, of reason] by (simp add: s0_def)
  have a: "list_all (\<lambda>p. fold (\<lambda>d ds. ds[d := Some (Failed reason)]) (map snd (outgoing_requests s)) (deferreds s) ! snd p
              = Some (Failed reason)) (outgoing_requests s)"
    unfolding list_all_iff using valid by (auto simp: nth_fold_update)
  have b: "fold (\<lambda>d ds. ds[d := Some (Failed reason)]) (map snd (outgoing_requests s)) (deferreds s) ! d = deferreds s ! d"
    if "d \<notin> snd ` set (outgoing_requests s)" "d < length (deferreds s)" for d
    using that by (simp add: nth_fold_update)
  show ?thesis
    unfolding Let_def s_def [symmetric] r using a b by (simp add: length_fold_update)
qed

text \<open>
  The theorem at the example: the first request has its Response, the second is pending
  when the connection is lost.
\<close>

theorem connectionLost_fails_all_witness:
  "outgoing_requests (run example_env example_stream_events (init Stream False None None)) = [(KInt 2, 1)] \<and>
   deferreds (run example_env example_stream_events (init Stream False None None)) ! 0 = Some (Succeeded (PStr ''hi'')) \<and>
   (0::nat) \<notin> snd ` set [(KInt 2, 1::nat)] \<and>
   deferreds (snd (connectionLost ConnectionDone
      (run example_env example_stream_events (init Stream False None None)))) ! 1 = Some (Failed ConnectionDone) \<and>
   deferreds (snd (connectionLost ConnectionDone
      (run example_env example_stream_events (init Stream False None None)))) ! 0 = Some (Succeeded (PStr ''hi''))"
proof -
  let ?s = "run example_env example_stream_events (init Stream False None None)"
  have o: "outgoing_requests ?s = [(KInt 2, 1)]" by code_simp
  have d: "deferreds ?s = [Some (Succeeded (PStr ''hi'')), None]" by code_simp
  from connectionLost_fails_all [of example_env example_stream_events False None None ConnectionDone]
  show ?thesis
    unfolding Let_def o d by simp
qed

text \<open>
  The claim as stated names the failure \<open>ConnectionError\<close>. The pending request of the
  example fails with the reason \<open>connectionLost\<close> was called with, here Twisted's
  \<open>ConnectionDone\<close>.
\<close>

theorem connectionLost_not_ConnectionError:
  "deferreds (snd (connectionLost ConnectionDone
      (run example_env example_stream_events (init Stream False None None)))) ! 1
   \<noteq> Some (Failed ConnectionError)"
  by code_simp

section \<open>Message identifiers\<close>

text \<open>
  C5. On every protocol object, whatever sequence of events it goes through from its
  constructor, the msgids that the \<open>createRequest\<close> calls of the sequence assign are
  strictly increasing, hence pairwise distinct; and the msgid that a further
  \<open>createRequest\<close> assigns is above the counter and has no entry in the outgoing table.
\<close>

theorem msgids_pairwise_distinct:
  "sorted_wrt (<) (assigned_msgids env evs (init k se t a)) \<and>
   distinct (assigned_msgids env evs (init k se t a)) \<and>
   (\<forall>d msgid s'. createRequest env m p (run env evs (init k se t a)) = (Inr (d, msgid), s') \<longrightarrow>
      next_msgid (run env evs (init k se t a)) < msgid \<and>
      map_of (outgoing_requests (run env evs (init k se t a))) (KInt msgid) = None)"
proof -
  have s: "sorted_wrt (<) (assigned_msgids env evs (init k se t a))"
    by (rule assigned_msgids_sorted)
  then have d: "distinct (assigned_msgids env evs (init k se t a))"
    by (simp add: strict_sorted_iff)
  have ok: "outgoing_ok (run env evs (init k se t a))"
    by (intro run_ok init_ok)
  have "next_msgid (run env evs (init k se t a)) < msgid \<and>
        map_of (outgoing_requests (run env evs (init k se t a))) (KInt msgid) = None"
    if "createRequest env m p (run env evs (init k se t a)) = (Inr (d, msgid), s')" for d msgid s'
    using createRequest_fresh [OF ok that] createRequest_Inr(1) [OF that] by simp
  with s d show ?thesis by blast
qed

text \<open>
  The theorem at the example: the two requests got the msgids 1 and 2, a third request
  gets 3, which is not in the table.
\<close>

theorem msgids_pairwise_distinct_witness:
  "assigned_msgids example_env example_stream_events (init Stream False None None) = [1, 2] \<and>
   distinct [1, 2 :: int] \<and>
   fst (createRequest example_env (PStr ''echo'') (PList [])
          (run example_env example_stream_events (init Stream False None None))) = Inr (2, 3) \<and>
   next_msgid (run example_env example_stream_events (init Stream False None None)) < 3 \<and>
   map_of (outgoing_requests (run example_env example_stream_events (init Stream False None None))) (KInt 3) = None"
proof -
  let ?s = "run example_env example_stream_events (init Stream False None None)"
  let ?c = "createRequest example_env (PStr ''echo'') (PList []) ?s"
  have a: "assigned_msgids example_env example_stream_events (init Stream False None None) = [1, 2]"
    by code_simp
  have f: "fst ?c = Inr (2, 3)" by code_simp
  then have c: "?c = (Inr (2, 3), snd ?c)" by (metis prod.collapse)
  from msgids_pairwise_distinct [of example_env example_stream_events Stream False None None
      "PStr ''echo''" "PList []"] a f c
  show ?thesis by auto
qed

section \<open>A Request with a msgid that is being processed\<close>

text \<open>
  C6. A Request of four elements whose msgid is in the incoming table makes
  \<open>requestReceived\<close> raise \<open>InvalidRequest\<close> and leaves the protocol object exactly as it
  was: nothing is registered, no remote method is called, and the completion of the first
  request does what it would have done without the second.
\<close>

theorem duplicate_request_rejected:
  assumes "hashkey msgid = Some k" and "map_of (incoming_requests s) k = Some entry"
  shows "requestReceived env [t, msgid, name, params] context s = (Inl InvalidRequest, s) \<and>
         fireResult env d out (snd (requestReceived env [t, msgid, name, params] context s))
           = fireResult env d out s \<and>
         (py_eq_int t MSGTYPE_REQUEST \<longrightarrow>
          messageReceived env (PList [t, msgid, name, params]) context s = (Inl InvalidRequest, s))"
  using assms by (simp add: requestReceived_def)

text \<open>
  The theorem at the example: a second Request with msgid 7 is rejected, and the first,
  when its Deferred fires, writes its Response \<open>[1, 7, nil, 1]\<close>.
\<close>

theorem duplicate_request_rejected_witness:
  "hashkey (PInt 7) = Some (KInt 7) \<and>
   map_of (incoming_requests example_busy) (KInt 7) = Some (0, None) \<and>
   requestReceived example_env [PInt 0, PInt 7, PStr ''echo'', PList [PInt 1]] None example_busy
     = (Inl InvalidRequest, example_busy) \<and>
   messageReceived example_env (PList [PInt 0, PInt 7, PStr ''echo'', PList [PInt 1]]) None example_busy
     = (Inl InvalidRequest, example_busy) \<and>
   written (snd (fireResult example_env 0 (Succeeded (PInt 1)) example_busy)) = [([0x94, 0x01, 0x07, 0xc0, 0x01], None)]"
proof -
  have h: "hashkey (PInt 7) = Some (KInt 7)" by simp
  have m: "map_of (incoming_requests example_busy) (KInt 7) = Some (0, None)" by code_simp
  have w: "written (snd (fireResult example_env 0 (Succeeded (PInt 1)) example_busy)) = [([0x94, 0x01, 0x07, 0xc0, 0x01], None)]"
    by code_simp
  from duplicate_request_rejected [OF h m, of example_env "PInt 0" "PStr ''echo''" "PList [PInt 1]" None 0 "Succeeded (PInt 1)"]
  show ?thesis using h m w by (simp add: MSGTYPE_REQUEST_def)
qed

section \<open>A message of unknown type\<close>

text \<open>
  C8, as amended. An array whose first element equals none of 0, 1 and 2 makes
  \<open>messageReceived\<close> raise, through \<open>undefinedMessageReceived\<close>, the built-in
  \<open>NotImplementedError\<close>; the protocol object is left as it was.
\<close>

theorem unknown_type_raises_NotImplementedError:
  assumes "\<not> py_eq_int t MSGTYPE_REQUEST" and "\<not> py_eq_int t MSGTYPE_RESPONSE"
      and "\<not> py_eq_int t MSGTYPE_NOTIFICATION"
  shows "messageReceived env (PList (t # ts)) context s = (Inl NotImplementedError, s)"
  using assms by (simp add: undefinedMessageReceived_def)

text \<open>The theorem at the message \<open>[5, "x"]\<close>.\<close>

theorem unknown_type_raises_NotImplementedError_witness:
  "\<not> py_eq_int (PInt 5) MSGTYPE_REQUEST \<and> \<not> py_eq_int (PInt 5) MSGTYPE_RESPONSE \<and>
   \<not> py_eq_int (PInt 5) MSGTYPE_NOTIFICATION \<and>
   messageReceived example_env (PList [PInt 5, PStr ''x'']) None (init Stream False None None)
     = (Inl NotImplementedError, init Stream False None None)"
proof -
  have a: "\<not> py_eq_int (PInt 5) MSGTYPE_REQUEST" "\<not> py_eq_int (PInt 5) MSGTYPE_RESPONSE"
    "\<not> py_eq_int (PInt 5) MSGTYPE_NOTIFICATION"
    by (simp_all add: MSGTYPE_REQUEST_def MSGTYPE_RESPONSE_def MSGTYPE_NOTIFICATION_def)
  from unknown_type_raises_NotImplementedError [OF a, of example_env "[PStr ''x'']" None "init Stream False None None"] a
  show ?thesis by simp
qed

text \<open>
  The claim as stated names the exception \<open>UndefinedMessage\<close>; the message \<open>[5, "x"]\<close>
  raises another one.
\<close>

theorem unknown_type_not_UndefinedMessage:
  "fst (messageReceived example_env (PList [PInt 5, PStr ''x'']) None (init Stream False None None))
     \<noteq> Inl UndefinedMessage"
  by code_simp

section \<open>The pending timeouts of a datagram protocol\<close>

lemma base_writeMessage_timers:
  "delayedCalls (snd (base_writeMessage env m c s)) = delayedCalls s"
  "pendingTimeouts (snd (base_writeMessage env m c s)) = pendingTimeouts s"
  by (simp_all add: base_writeMessage_def writeRawData_def split: sum.splits kind.splits option.splits)

lemma fire_pendingTimeouts: "pendingTimeouts (snd (fire d out s)) = pendingTimeouts s"
  by (simp add: fire_def split: option.splits)

lemma cancel_pendingTimeouts: "pendingTimeouts (snd (cancel dc s)) = pendingTimeouts s"
  by (simp add: cancel_def split: dcstate.splits)

lemma base_responseReceived_pendingTimeouts:
  "pendingTimeouts (snd (base_responseReceived m s)) = pendingTimeouts s"
  using base_responseReceived_cases [of m s]
  by (elim disjE exE conjE) (simp_all add: fire_pendingTimeouts)

lemma responseReceived_pendingTimeouts:
  "pendingTimeouts (snd (responseReceived m s)) = pendingTimeouts s"
proof -
  have "pendingTimeouts (snd (case cancel dc s of (Inl e, s1) \<Rightarrow> (Inl e, s1)
                          | (Inr u, s1) \<Rightarrow> base_responseReceived m s1)) = pendingTimeouts s" for dc
  proof (cases "cancel dc s")
    case (Pair r s1)
    with cancel_pendingTimeouts [of dc s] have "pendingTimeouts s1 = pendingTimeouts s" by simp
    with Pair base_responseReceived_pendingTimeouts [of m s1] show ?thesis by (cases r) simp_all
  qed
  then have "pendingTimeouts (snd (dgram_responseReceived m s)) = pendingTimeouts s"
    by (simp add: dgram_responseReceived_def base_responseReceived_pendingTimeouts split: list.splits option.splits)
  then show ?thesis
    by (cases "kind s") (simp_all add: responseReceived_def base_responseReceived_pendingTimeouts)
qed

lemma runDelayedCall_pendingTimeouts:
  "pendingTimeouts (snd (runDelayedCall dc s)) = pendingTimeouts s"
  by (simp add: runDelayedCall_def timeoutRequest_def fire_pendingTimeouts split: option.splits)

text \<open>
  C10. On a datagram protocol whose timeout is set (and not zero), \<open>writeMessage\<close> of any
  message, whatever its type, schedules a DelayedCall for \<open>timeoutRequest\<close> with the
  message's second element and stores it in \<open>_pendingTimeouts\<close> under that element, which
  is the method name for a Notification; this happens before the message is packed. Neither
  \<open>responseReceived\<close>, which cancels the call, nor the call when it runs changes
  \<open>_pendingTimeouts\<close>.
\<close>

theorem dgram_writeMessage_schedules_timeout:
  assumes "kind s = Datagram" and "timeout s = Some t" and "t \<noteq> 0" and "hashkey key = Some k"
  shows "delayedCalls (snd (writeMessage env (ty # key # rest) c s))
           = delayedCalls s @ [DelayedCall key Scheduled] \<and>
         pendingTimeouts (snd (writeMessage env (ty # key # rest) c s))
           = AList.update k (length (delayedCalls s)) (pendingTimeouts s) \<and>
         pendingTimeouts (snd (responseReceived m s)) = pendingTimeouts s \<and>
         pendingTimeouts (snd (runDelayedCall dc s)) = pendingTimeouts s"
  using assms
  by (simp add: writeMessage_def dgram_writeMessage_def Let_def base_writeMessage_timers
      responseReceived_pendingTimeouts runDelayedCall_pendingTimeouts)

text \<open>
  The theorem at the example: writing the Notification \<open>[2, "log", ["x"]]\<close> schedules a
  second call, stored under the key \<open>"log"\<close>.
\<close>

theorem dgram_writeMessage_schedules_timeout_witness:
  "kind example_datagram = Datagram \<and> timeout example_datagram = Some 50 \<and> (50::nat) \<noteq> 0 \<and>
   hashkey (PStr ''log'') = Some (KStr ''log'') \<and>
   delayedCalls (snd (writeMessage example_env [PInt 2, PStr ''log'', PList [PStr ''x'']]
                        (Some (Context (Some (''peer'', 9)))) example_datagram))
     = [DelayedCall (PInt 1) Scheduled, DelayedCall (PStr ''log'') Scheduled] \<and>
   pendingTimeouts (snd (writeMessage example_env [PInt 2, PStr ''log'', PList [PStr ''x'']]
                        (Some (Context (Some (''peer'', 9)))) example_datagram))
     = [(KInt 1, 0), (KStr ''log'', 1)] \<and>
   pendingTimeouts (snd (responseReceived [PInt 1, PInt 1, PNone, PStr ''hi''] example_datagram)) = [(KInt 1, 0)] \<and>
   pendingTimeouts (snd (runDelayedCall 0 example_datagram)) = [(KInt 1, 0)]"
proof -
  have k: "kind example_datagram = Datagram" by code_simp
  have t: "timeout example_datagram = Some 50" by code_simp
  have d: "delayedCalls example_datagram = [DelayedCall (PInt 1) Scheduled]" by code_simp
  have p: "pendingTimeouts example_datagram = [(KInt 1, 0)]" by code_simp
  from dgram_writeMessage_schedules_timeout [OF k t, of "PStr ''log''" "KStr ''log''" example_env
      "PInt 2" "[PList [PStr ''x'']]" "Some (Context (Some (''peer'', 9)))"
      "[PInt 1, PInt 1, PNone, PStr ''hi'']" 0]
  show ?thesis using k t by (simp add: d p)
qed

end
